theory Spec2Isabelle
  imports Complex_Main "HOL-Library.Monad_Syntax"
begin

section \<open>JavaScript values used by the telemetry layer\<close>

text \<open>
  Router ids are numbers: the detail routes look a device up with
  \<^verbatim>\<open>routerConfigs.find(r => r.id === parseInt(req.params.id))\<close>, so a configuration
  entry is only reachable when its \<^verbatim>\<open>id\<close> is a number. Ids, byte counters and
  \<^verbatim>\<open>Date.now()\<close> readings (milliseconds) are modelled as \<^typ>\<open>int\<close>: a double holds
  every integer below \<open>2 ^ 53\<close> exactly, and the sums, differences and products of such
  integers that the program forms are exact.
\<close>

definition digit :: "nat \<Rightarrow> char" where
  "digit d = ''0123456789'' ! d"

fun digits :: "nat \<Rightarrow> string" where
  "digits n = (if n < 10 then [digit n] else digits (n div 10) @ [digit (n mod 10)])"

declare digits.simps [simp del]

text \<open>The text a template literal \<^verbatim>\<open>`${n}`\<close> produces for an integer \<open>n\<close>.\<close>

definition toString :: "int \<Rightarrow> string" where
  "toString n = (if n < 0 then CHR ''-'' # digits (nat (- n)) else digits (nat n))"

text \<open>
  A quotient is a double: the exact quotient rounded to the nearest number with a
  53-bit significand, a tie going to the even significand. \<open>bits n\<close> is the number of
  binary digits of \<open>n\<close>, \<open>expo a\<close> the exponent \<open>e\<close> with \<open>pow2 e \<le> a < pow2 (e + 1)\<close> of a
  positive \<open>a\<close>, and \<open>pow2 (expo \<bar>x\<bar>) / 2 ^ 52\<close> the distance between neighbouring
  doubles at \<open>x\<close>. An integer is kept as it is, the integers that occur being taken
  to be below \<open>2 ^ 53\<close>. Sub-normal numbers and overflow
  (magnitudes below \<open>pow2 (- 1022)\<close> or from \<open>pow2 1024\<close> on) are outside the model.
\<close>

fun bits :: "nat \<Rightarrow> nat" where
  "bits n = (if n = 0 then 0 else Suc (bits (n div 2)))"

declare bits.simps [simp del]

definition pow2 :: "int \<Rightarrow> real" where
  "pow2 k = (if k \<ge> 0 then 2 ^ nat k else 1 / 2 ^ nat (- k))"

definition expo :: "real \<Rightarrow> int" where
  "expo a = (if a \<ge> 1 then int (bits (nat \<lfloor>a\<rfloor>)) - 1 else - int (bits (nat (\<lceil>1 / a\<rceil> - 1))))"

definition roundEven :: "real \<Rightarrow> int" where
  "roundEven m =
     (let f = \<lfloor>m\<rfloor>; d = m - of_int f
      in if d < 1 / 2 then f else if d > 1 / 2 then f + 1 else if even f then f else f + 1)"

definition round53 :: "real \<Rightarrow> real" where
  "round53 x = (let ulp = pow2 (expo \<bar>x\<bar>) / 2 ^ 52 in of_int (roundEven (x / ulp)) * ulp)"

definition fl :: "real \<Rightarrow> real" where
  "fl x = (if of_int \<lfloor>x\<rfloor> = x then x else round53 x)"

text \<open>
  \<^verbatim>\<open>a / b\<close> on numbers. Division by zero gives \<^verbatim>\<open>Infinity\<close> or \<^verbatim>\<open>NaN\<close> in the
  program; the model returns \<open>None\<close> for every such non-finite result.
\<close>

definition js_div :: "real \<Rightarrow> real \<Rightarrow> real option" where
  "js_div a b = (if b = 0 then None else Some (fl (a / b)))"

text \<open>\<^verbatim>\<open>Math.round\<close>: the nearest integer, a half rounded up.\<close>

definition Math_round :: "real \<Rightarrow> int" where
  "Math_round x = \<lfloor>x + 1 / 2\<rfloor>"

section \<open>The rate engine: \<^verbatim>\<open>calculateRates\<close>\<close>

record sample =
  lastRx :: int
  lastTx :: int
  lastTime :: int

record rates =
  rxRate :: int
  txRate :: int

type_synonym trafficHistory = "string \<rightharpoonup> sample"

text \<open>
  \<^verbatim>\<open>calculateRates\<close> of the pooled server. \<open>currentTime\<close> is the reading of
  \<^verbatim>\<open>Date.now()\<close>; the map \<^verbatim>\<open>trafficHistory\<close> is passed in and returned. The
  result is \<open>None\<close> when a rate would not be a finite number.
\<close>

definition calculateRates ::
  "trafficHistory \<Rightarrow> int \<Rightarrow> int \<Rightarrow> string \<Rightarrow> int \<Rightarrow> int \<Rightarrow> rates option \<times> trafficHistory" where
  "calculateRates trafficHistory currentTime routerId interfaceName currentRx currentTx =
    (let key = toString routerId @ ''_'' @ interfaceName in
     case trafficHistory key of
       None \<Rightarrow>
         (Some \<lparr>rxRate = 0, txRate = 0\<rparr>,
          trafficHistory(key \<mapsto> \<lparr>lastRx = currentRx, lastTx = currentTx, lastTime = currentTime\<rparr>))
     | Some history \<Rightarrow>
         (let timeDiff = fl (of_int (currentTime - lastTime history) / 1000) in
              if timeDiff \<ge> 3 / 2 then
                (let rxDiff = (if currentRx \<ge> lastRx history then currentRx - lastRx history else currentRx);
                     txDiff = (if currentTx \<ge> lastTx history then currentTx - lastTx history else currentTx)
                 in (do {
                       rx \<leftarrow> js_div (of_int (rxDiff * 8)) timeDiff;
                       tx \<leftarrow> js_div (of_int (txDiff * 8)) timeDiff;
                       Some \<lparr>rxRate = max 0 (Math_round rx), txRate = max 0 (Math_round tx)\<rparr>
                     },
                     trafficHistory(key \<mapsto>
                       \<lparr>lastRx = currentRx, lastTx = currentTx, lastTime = currentTime\<rparr>)))
              else
                (let cachedRxDiff = (if currentRx \<ge> lastRx history then currentRx - lastRx history else currentRx);
                     cachedTxDiff = (if currentTx \<ge> lastTx history then currentTx - lastTx history else currentTx);
                     cachedTimeDiff = (if timeDiff = 0 then 1 else timeDiff)
                 in (do {
                       rx \<leftarrow> js_div (of_int (cachedRxDiff * 8)) cachedTimeDiff;
                       tx \<leftarrow> js_div (of_int (cachedTxDiff * 8)) cachedTimeDiff;
                       Some \<lparr>rxRate = Math_round rx, txRate = Math_round tx\<rparr>
                     },
                     trafficHistory))))"

text \<open>
  \<^verbatim>\<open>calculateRates\<close> of \<^verbatim>\<open>backend/server.js\<close>: the minimum interval is two seconds
  and a call that comes too soon reports zero. Its only divisions are by a
  \<open>timeDiff\<close> of at least 2, so the rates are finite numbers.
\<close>

definition calculateRates_server ::
  "trafficHistory \<Rightarrow> int \<Rightarrow> int \<Rightarrow> string \<Rightarrow> int \<Rightarrow> int \<Rightarrow> rates \<times> trafficHistory" where
  "calculateRates_server trafficHistory currentTime routerId interfaceName currentRx currentTx =
    (let key = toString routerId @ ''_'' @ interfaceName in
     case trafficHistory key of
       None \<Rightarrow>
         (\<lparr>rxRate = 0, txRate = 0\<rparr>,
          trafficHistory(key \<mapsto> \<lparr>lastRx = currentRx, lastTx = currentTx, lastTime = currentTime\<rparr>))
     | Some history \<Rightarrow>
         (let timeDiff = fl (of_int (currentTime - lastTime history) / 1000) in
              if timeDiff \<ge> 2 then
                (let rxDiff = (if currentRx \<ge> lastRx history then currentRx - lastRx history else currentRx);
                     txDiff = (if currentTx \<ge> lastTx history then currentTx - lastTx history else currentTx);
                     rxRate = max 0 (Math_round (fl (of_int (rxDiff * 8) / timeDiff)));
                     txRate = max 0 (Math_round (fl (of_int (txDiff * 8) / timeDiff)))
                 in (\<lparr>rxRate = rxRate, txRate = txRate\<rparr>,
                     trafficHistory(key \<mapsto>
                       \<lparr>lastRx = currentRx, lastTx = currentTx, lastTime = currentTime\<rparr>)))
              else (\<lparr>rxRate = 0, txRate = 0\<rparr>, trafficHistory)))"

section \<open>Strings and objects received from the device\<close>

text \<open>
  The protocol adapter answers a query with an array of rows; a row is an object whose
  properties are strings. A property that is absent reads as \<^verbatim>\<open>undefined\<close>, here
  \<open>None\<close>.
\<close>

type_synonym row = "string \<rightharpoonup> string"

text \<open>An element of the reply to a \<^verbatim>\<open>count-only\<close> query: a text or a row object.\<close>

datatype item = Text string | Row row

text \<open>
  JavaScript values held by the objects the server builds. An object is a map from
  property names to values; the spread \<^verbatim>\<open>{...a, ...b}\<close> is \<open>a ++ b\<close>.
\<close>

datatype jsval =
    Null
  | Num real
  | Str string
  | Bool bool
  | Arr "jsval list"
  | Obj "string \<Rightarrow> jsval option"

type_synonym obj = "string \<rightharpoonup> jsval"

text \<open>
  A character of a \<^typ>\<open>string\<close> is a code unit below 256. The white space that
  \<^verbatim>\<open>parseInt\<close> skips is, among these, the space, the controls 9 to 13 and the
  no-break space.
\<close>

definition isSpace :: "char \<Rightarrow> bool" where
  "isSpace c = (c \<in> set [CHR '' '', CHR 0x09, CHR 0x0A, CHR 0x0B, CHR 0x0C, CHR 0x0D, CHR 0xA0])"

definition isDigit :: "char \<Rightarrow> bool" where
  "isDigit c = (c \<in> set ''0123456789'')"

definition isHexDigit :: "char \<Rightarrow> bool" where
  "isHexDigit c = (c \<in> set ''0123456789abcdefABCDEF'')"

definition digitVal :: "char \<Rightarrow> nat" where
  "digitVal c =
     (if isDigit c then of_char c - 48
      else if c \<in> set ''abcdef'' then of_char c - 87
      else of_char c - 55)"

definition numberOf :: "nat \<Rightarrow> string \<Rightarrow> nat" where
  "numberOf radix ds = foldl (\<lambda>n c. n * radix + digitVal c) 0 ds"

text \<open>
  \<^verbatim>\<open>parseInt(x)\<close> without a radix: leading white space, a sign, then either
  \<^verbatim>\<open>0x\<close> and hexadecimal digits or decimal digits; \<open>None\<close> is \<^verbatim>\<open>NaN\<close>.
\<close>

definition parseInt :: "string option \<Rightarrow> int option" where
  "parseInt x =
     (case x of
        None \<Rightarrow> None
      | Some text \<Rightarrow>
          (let s = dropWhile isSpace text;
               negative = (take 1 s = ''-'');
               body = (if take 1 s = ''-'' \<or> take 1 s = ''+'' then drop 1 s else s);
               sign = (if negative then - 1 else 1)
           in if take 2 body = ''0x'' \<or> take 2 body = ''0X'' then
                (let ds = takeWhile isHexDigit (drop 2 body)
                 in if ds = [] then None else Some (sign * int (numberOf 16 ds)))
              else
                (let ds = takeWhile isDigit body
                 in if ds = [] then None else Some (sign * int (numberOf 10 ds)))))"

text \<open>\<^verbatim>\<open>parseInt(x) || 0\<close>: \<^verbatim>\<open>NaN\<close> and zero both give zero.\<close>

definition parseIntOr0 :: "string option \<Rightarrow> int" where
  "parseIntOr0 x = (case parseInt x of None \<Rightarrow> 0 | Some n \<Rightarrow> n)"

text \<open>\<^verbatim>\<open>parseInt(items[0])\<close> on a reply element; a row object is not a number.\<close>

definition parseIntItem :: "item \<Rightarrow> int option" where
  "parseIntItem i = (case i of Text t \<Rightarrow> parseInt (Some t) | Row r \<Rightarrow> None)"

text \<open>\<^verbatim>\<open>x || d\<close> on an optional string: \<^verbatim>\<open>undefined\<close> and the empty string give \<open>d\<close>.\<close>

definition orElse :: "string option \<Rightarrow> string \<Rightarrow> string" where
  "orElse x d = (case x of None \<Rightarrow> d | Some t \<Rightarrow> if t = [] then d else t)"

text \<open>\<^verbatim>\<open>text.split(sep)\<close> for a one-character separator.\<close>

fun split :: "char \<Rightarrow> string \<Rightarrow> string list" where
  "split sep [] = [[]]"
| "split sep (c # cs) =
     (let rest = split sep cs
      in if c = sep then [] # rest else (c # hd rest) # tl rest)"

text \<open>The element at index \<open>i\<close> of an array, \<^verbatim>\<open>undefined\<close> past its end.\<close>

definition elemAt :: "'a list \<Rightarrow> nat \<Rightarrow> 'a option" where
  "elemAt xs i = (if i < length xs then Some (xs ! i) else None)"

definition toUpperCase :: "char \<Rightarrow> char" where
  "toUpperCase c =
     (if c = CHR ''k'' then CHR ''K'' else if c = CHR ''m'' then CHR ''M''
      else if c = CHR ''g'' then CHR ''G'' else c)"

text \<open>
  \<^verbatim>\<open>parseBandwidth\<close> of the pooled server: the first match of
  \<^verbatim>\<open>/(\d+\.?\d*)([KMG]?)/i\<close>, its number read by \<^verbatim>\<open>parseFloat\<close>, times the
  unit's multiplier.
\<close>

definition parseBandwidth :: "string option \<Rightarrow> real" where
  "parseBandwidth bandwidth =
     (case bandwidth of
        None \<Rightarrow> 0
      | Some text \<Rightarrow>
          (let s = dropWhile (\<lambda>c. \<not> isDigit c) text
           in if s = [] then 0
              else
                (let whole = takeWhile isDigit s;
                     r1 = dropWhile isDigit s;
                     frac = (if take 1 r1 = ''.'' then takeWhile isDigit (drop 1 r1) else []);
                     r2 = (if take 1 r1 = ''.'' then dropWhile isDigit (drop 1 r1) else r1);
                     unit = (case r2 of
                               [] \<Rightarrow> []
                             | c # _ \<Rightarrow> if c \<in> set ''KMGkmg'' then [toUpperCase c] else []);
                     value = real (numberOf 10 whole) + real (numberOf 10 frac) / 10 ^ length frac;
                     multiplier =
                       (if unit = ''K'' then 1000 else if unit = ''M'' then 1000000
                        else if unit = ''G'' then 1000000000 else 1)
                 in value * multiplier)))"

section \<open>The connection pool and its response cache\<close>

record routerConfig =
  id' :: int
  name :: string
  ip :: string
  username :: string
  password :: string
  port :: "int option"

text \<open>A \<^verbatim>\<open>RouterOSAPI\<close> client object, known by its identity.\<close>

type_synonym conn = nat

record poolEntry =
  connection :: conn
  lastUsed :: int
  useCount :: int
  config' :: routerConfig

record 'v cacheEntry =
  data :: 'v
  timestamp :: int

record 'v ConnectionPool =
  pools :: "string \<rightharpoonup> poolEntry"
  cacheData :: "string \<rightharpoonup> 'v cacheEntry"

text \<open>
  Calls made to the protocol adapter, in the order they are made. \<open>Close\<close> records
  whether the close succeeded; the pool ignores it.
\<close>

datatype call =
    Connect conn string string string int
  | Close conn bool

text \<open>
  What the outside world supplies while one device is handled: the clock readings of
  \<^verbatim>\<open>Date.now()\<close> (when the request starts, when the connect has resolved or failed,
  when the replies have arrived, when the results are merged), the client object
  \<^verbatim>\<open>new RouterOS\<close> creates, and how each adapter call ends (\<open>None\<close>: it throws).
  \<open>connect_message\<close> is the message of the error that a failing \<^verbatim>\<open>connect\<close> throws;
  \<^verbatim>\<open>getConnection\<close> writes it to the console and returns \<^verbatim>\<open>null\<close>.
\<close>

record io =
  at_request :: int
  at_connected :: int
  at_reply :: int
  at_merge :: int
  fresh :: conn
  connect_ok :: bool
  connect_message :: string
  close_ok :: bool
  resource_print :: "row list option"
  pppoe_print :: "row list option"
  queue_count :: "item list option"
  queue_count_active :: "item list option"
  queue_print :: "row list option"

text \<open>
  A property read \<^verbatim>\<open>this.cacheTimeouts[endpoint]\<close>. The object literal has five own
  properties; any other name is looked up in \<^verbatim>\<open>Object.prototype\<close>, whose properties
  are functions and objects, not numbers.
\<close>

datatype property = Number int | Inherited

definition cacheTimeouts :: "(string \<times> int) list" where
  "cacheTimeouts =
     [(''overview'', 3000), (''bandwidth'', 2000), (''queues'', 10000),
      (''interfaces'', 5000), (''resources'', 3000)]"

definition Object_prototype :: "string list" where
  "Object_prototype =
     [''constructor'', ''hasOwnProperty'', ''isPrototypeOf'', ''propertyIsEnumerable'',
      ''toLocaleString'', ''toString'', ''valueOf'', ''__proto__'',
      ''__defineGetter__'', ''__defineSetter__'', ''__lookupGetter__'', ''__lookupSetter__'']"

definition cacheTimeout :: "string \<Rightarrow> property option" where
  "cacheTimeout endpoint =
     (case map_of cacheTimeouts endpoint of
        Some n \<Rightarrow> Some (Number n)
      | None \<Rightarrow> if endpoint \<in> set Object_prototype then Some Inherited else None)"

text \<open>\<^verbatim>\<open>v || 5000\<close>: a missing property and the number zero give 5000.\<close>

definition orDefault :: "property option \<Rightarrow> property" where
  "orDefault v =
     (case v of
        None \<Rightarrow> Number 5000
      | Some (Number n) \<Rightarrow> if n = 0 then Number 5000 else Number n
      | Some Inherited \<Rightarrow> Inherited)"

text \<open>\<^verbatim>\<open>age < timeout\<close>: a function or an object converts to \<^verbatim>\<open>NaN\<close>, and no number is below it.\<close>

definition jsLess :: "int \<Rightarrow> property \<Rightarrow> bool" where
  "jsLess age timeout = (case timeout of Number n \<Rightarrow> age < n | Inherited \<Rightarrow> False)"

definition getCacheKey :: "int \<Rightarrow> string \<Rightarrow> string" where
  "getCacheKey routerId endpoint = toString routerId @ ''_'' @ endpoint"

text \<open>\<open>None\<close> is the \<^verbatim>\<open>null\<close> of a miss; \<open>now\<close> is the reading of \<^verbatim>\<open>Date.now()\<close>.\<close>

definition getFromCache :: "'v ConnectionPool \<Rightarrow> int \<Rightarrow> int \<Rightarrow> string \<Rightarrow> 'v option" where
  "getFromCache this now routerId endpoint =
     (let key = getCacheKey routerId endpoint;
          cached = cacheData this key;
          timeout = orDefault (cacheTimeout endpoint)
      in case cached of
           None \<Rightarrow> None
         | Some c \<Rightarrow> if jsLess (now - timestamp c) timeout then Some (data c) else None)"

text \<open>
  \<^verbatim>\<open>getFromCache\<close> on a pool object whose property \<^verbatim>\<open>cacheTimeouts\<close> holds the table
  \<open>timeouts\<close>; the constructor assigns the table \<^const>\<open>cacheTimeouts\<close>, and
  \<^const>\<open>getFromCache\<close> is this function at that table.
\<close>

definition timeoutIn :: "(string \<times> int) list \<Rightarrow> string \<Rightarrow> property option" where
  "timeoutIn timeouts endpoint =
     (case map_of timeouts endpoint of
        Some n \<Rightarrow> Some (Number n)
      | None \<Rightarrow> if endpoint \<in> set Object_prototype then Some Inherited else None)"

definition getFromCacheWith ::
  "(string \<times> int) list \<Rightarrow> 'v ConnectionPool \<Rightarrow> int \<Rightarrow> int \<Rightarrow> string \<Rightarrow> 'v option" where
  "getFromCacheWith timeouts this now routerId endpoint =
     (let key = getCacheKey routerId endpoint;
          cached = cacheData this key;
          timeout = orDefault (timeoutIn timeouts endpoint)
      in case cached of
           None \<Rightarrow> None
         | Some c \<Rightarrow> if jsLess (now - timestamp c) timeout then Some (data c) else None)"

definition setCache :: "'v ConnectionPool \<Rightarrow> int \<Rightarrow> int \<Rightarrow> string \<Rightarrow> 'v \<Rightarrow> 'v ConnectionPool" where
  "setCache this now routerId endpoint d =
     (let key = getCacheKey routerId endpoint
      in this\<lparr>cacheData := (cacheData this)(key \<mapsto> \<lparr>data = d, timestamp = now\<rparr>)\<rparr>)"

text \<open>
  \<^verbatim>\<open>getConnection\<close>: the handle or \<^verbatim>\<open>null\<close>, the pool afterwards, and the adapter
  calls made. The body runs as one step: what other requests do to the pool while
  this one waits for \<^verbatim>\<open>close\<close> or \<^verbatim>\<open>connect\<close> is not part of the model.
\<close>

definition getConnection ::
  "io \<Rightarrow> 'v ConnectionPool \<Rightarrow> routerConfig \<Rightarrow> conn option \<times> 'v ConnectionPool \<times> call list" where
  "getConnection io this config =
     (let poolKey = toString (id' config) @ ''_'' @ ip config;
          connect = (\<lambda>this calls.
            let conn = fresh io;
                calls' = calls @ [Connect conn (ip config) (username config) (password config)
                                    (case port config of None \<Rightarrow> 8728
                                     | Some p \<Rightarrow> if p = 0 then 8728 else p)]
            in if connect_ok io then
                 (Some conn,
                  this\<lparr>pools := (pools this)(poolKey \<mapsto>
                    \<lparr>connection = conn, lastUsed = at_connected io, useCount = 1, config' = config\<rparr>)\<rparr>,
                  calls')
               else (None, this, calls'))
      in case pools this poolKey of
           None \<Rightarrow> connect this []
         | Some poolEntry \<Rightarrow>
             if at_request io - lastUsed poolEntry < 120000 then
               (Some (connection poolEntry),
                this\<lparr>pools := (pools this)(poolKey \<mapsto>
                  poolEntry\<lparr>lastUsed := at_request io, useCount := useCount poolEntry + 1\<rparr>)\<rparr>,
                [])
             else
               connect (this\<lparr>pools := (pools this)(poolKey := None)\<rparr>)
                 [Close (connection poolEntry) (close_ok io)])"

definition releaseConnection :: "'v ConnectionPool \<Rightarrow> int \<Rightarrow> routerConfig \<Rightarrow> 'v ConnectionPool" where
  "releaseConnection this now config =
     (let poolKey = toString (id' config) @ ''_'' @ ip config
      in case pools this poolKey of
           None \<Rightarrow> this
         | Some poolEntry \<Rightarrow>
             this\<lparr>pools := (pools this)(poolKey \<mapsto> poolEntry\<lparr>lastUsed := now\<rparr>)\<rparr>)"

definition closeConnection ::
  "io \<Rightarrow> 'v ConnectionPool \<Rightarrow> routerConfig \<Rightarrow> 'v ConnectionPool \<times> call list" where
  "closeConnection io this config =
     (let poolKey = toString (id' config) @ ''_'' @ ip config
      in case pools this poolKey of
           None \<Rightarrow> (this, [])
         | Some poolEntry \<Rightarrow>
             (this\<lparr>pools := (pools this)(poolKey := None)\<rparr>,
              [Close (connection poolEntry) (close_ok io)]))"

text \<open>
  \<^verbatim>\<open>cleanup\<close>, run every minute: pool entries idle for more than five minutes are
  closed and deleted, cache entries older than thirty seconds are deleted. The model
  keeps the two tables; the close calls are not recorded.
\<close>

definition cleanup :: "'v ConnectionPool \<Rightarrow> int \<Rightarrow> 'v ConnectionPool" where
  "cleanup this now =
     this\<lparr>pools := (\<lambda>key. case pools this key of
                        None \<Rightarrow> None
                      | Some poolEntry \<Rightarrow>
                          if now - lastUsed poolEntry > 300000 then None else Some poolEntry),
          cacheData := (\<lambda>key. case cacheData this key of
                        None \<Rightarrow> None
                      | Some cached \<Rightarrow>
                          if now - timestamp cached > 30000 then None else Some cached)\<rparr>"

section \<open>The queries of the pooled server\<close>

definition num :: "int \<Rightarrow> jsval" where
  "num n = Num (of_int n)"

text \<open>
  \<^verbatim>\<open>getRouterResources\<close>: the cached object, or the object built from the first row
  of the reply, or \<open>None\<close> (\<^verbatim>\<open>null\<close>) when the query throws or returns no row.
\<close>

definition getRouterResources ::
  "io \<Rightarrow> obj ConnectionPool \<Rightarrow> conn \<Rightarrow> routerConfig \<Rightarrow> obj option \<times> obj ConnectionPool" where
  "getRouterResources io this conn config =
     (case getFromCache this (at_connected io) (id' config) ''resources'' of
        Some cached \<Rightarrow> (Some cached, this)
      | None \<Rightarrow>
          (case resource_print io of
             None \<Rightarrow> (None, this)
           | Some [] \<Rightarrow> (None, this)
           | Some (r # _) \<Rightarrow>
               (let totalMem = parseIntOr0 (r ''total-memory'');
                    freeMem = parseIntOr0 (r ''free-memory'');
                    usedMem = totalMem - freeMem;
                    result =
                      [''cpu'' \<mapsto> num (parseIntOr0 (r ''cpu-load'')),
                       ''cpuLoad'' \<mapsto> Str (orElse (r ''cpu-load'') ''0''),
                       ''memoryTotal'' \<mapsto> num totalMem,
                       ''memoryFree'' \<mapsto> num freeMem,
                       ''memoryUsed'' \<mapsto> num usedMem,
                       ''memoryUsage'' \<mapsto>
                         num (if totalMem > 0
                              then Math_round (fl (fl (of_int usedMem / of_int totalMem) * 100))
                              else 0),
                       ''uptime'' \<mapsto> Str (orElse (r ''uptime'') ''0s''),
                       ''version'' \<mapsto> Str (orElse (r ''version'') ''unknown''),
                       ''board'' \<mapsto> Str (orElse (r ''board-name'') ''unknown'')]
                in (Some result, setCache this (at_reply io) (id' config) ''resources'' result))))"

definition getActiveUsers :: "io \<Rightarrow> conn \<Rightarrow> routerConfig \<Rightarrow> obj" where
  "getActiveUsers io conn config =
     (case pppoe_print io of
        None \<Rightarrow> [''dhcp'' \<mapsto> num 0, ''hotspot'' \<mapsto> num 0, ''pppoe'' \<mapsto> num 0, ''total'' \<mapsto> num 0]
      | Some pppoeInterfaces \<Rightarrow>
          (let pppoeCount = int (length pppoeInterfaces)
           in [''dhcp'' \<mapsto> num 0, ''hotspot'' \<mapsto> num 0,
               ''pppoe'' \<mapsto> num pppoeCount, ''total'' \<mapsto> num pppoeCount]))"

text \<open>\<^verbatim>\<open>parseInt(items[0]) || items.length\<close>.\<close>

definition countOf :: "item list \<Rightarrow> int" where
  "countOf items =
     (case parseIntItem (hd items) of
        None \<Rightarrow> int (length items)
      | Some n \<Rightarrow> if n = 0 then int (length items) else n)"

definition getQueueStatsLight ::
  "io \<Rightarrow> obj ConnectionPool \<Rightarrow> conn \<Rightarrow> routerConfig \<Rightarrow> obj \<times> obj ConnectionPool" where
  "getQueueStatsLight io this conn config =
     (case getFromCache this (at_connected io) (id' config) ''queues_light'' of
        Some cached \<Rightarrow> (cached, this)
      | None \<Rightarrow>
          (case (queue_count io, queue_count_active io) of
             (Some queues, Some activeQueues) \<Rightarrow>
               (let total = (if queues \<noteq> [] then countOf queues else 0);
                    active = (if activeQueues \<noteq> [] then countOf activeQueues else total);
                    result = [''total'' \<mapsto> num total, ''active'' \<mapsto> num active,
                              ''disabled'' \<mapsto> num (total - active)]
                in (result, setCache this (at_reply io) (id' config) ''queues_light'' result))
           | _ \<Rightarrow>
               ([''total'' \<mapsto> num 0, ''active'' \<mapsto> num 0, ''disabled'' \<mapsto> num 0], this)))"

text \<open>
  \<^verbatim>\<open>formatBitsPerSecond\<close> and \<^verbatim>\<open>formatBytes\<close> return a fixed text for zero. For
  any other number they compute with floating-point logarithms and powers; that part
  is the parameter \<open>render\<close>.
\<close>

definition formatBitsPerSecond :: "(real \<Rightarrow> string) \<Rightarrow> real \<Rightarrow> string" where
  "formatBitsPerSecond render bps = (if bps = 0 then ''0 bps'' else render bps)"

definition formatBytes :: "(real \<Rightarrow> string) \<Rightarrow> real \<Rightarrow> string" where
  "formatBytes render bytes = (if bytes = 0 then ''0 B'' else render bytes)"

text \<open>
  The body of the loop over the queues, the same text in \<^verbatim>\<open>getQueueStatsFull\<close> and
  in \<^verbatim>\<open>getQueueStats\<close> of \<^verbatim>\<open>backend/server.js\<close>; each file has its own
  \<^verbatim>\<open>parseBandwidth\<close>, the parameter \<open>parse\<close>. The accumulator holds
  \<^verbatim>\<open>activeQueues\<close>, \<^verbatim>\<open>totalBandwidthUp\<close>, \<^verbatim>\<open>totalBandwidthDown\<close> and
  \<^verbatim>\<open>queueList\<close>.
\<close>

definition queueStep ::
  "(string option \<Rightarrow> real) \<Rightarrow> (real \<Rightarrow> string) \<Rightarrow> (real \<Rightarrow> string) \<Rightarrow> row
     \<Rightarrow> int \<times> real \<times> real \<times> jsval list \<Rightarrow> int \<times> real \<times> real \<times> jsval list" where
  "queueStep parse renderBits renderBytes queue acc =
     (case acc of (activeQueues, totalBandwidthUp, totalBandwidthDown, queueList) \<Rightarrow>
        (let isActive = (queue ''disabled'' \<noteq> Some ''true'');
             maxLimit = split CHR ''/'' (orElse (queue ''max-limit'') ''0/0'');
             upBps = parse (elemAt maxLimit 0);
             downBps = parse (elemAt maxLimit 1);
             bytes = split CHR ''/'' (orElse (queue ''bytes'') ''0/0'');
             bytesUp = parseIntOr0 (elemAt bytes 0);
             bytesDown = parseIntOr0 (elemAt bytes 1);
             entry =
               [''maxLimitUp'' \<mapsto> Str (formatBitsPerSecond renderBits upBps),
                ''maxLimitDown'' \<mapsto> Str (formatBitsPerSecond renderBits downBps),
                ''bytesUp'' \<mapsto> num bytesUp,
                ''bytesDown'' \<mapsto> num bytesDown,
                ''bytesUpFormatted'' \<mapsto> Str (formatBytes renderBytes (of_int bytesUp)),
                ''bytesDownFormatted'' \<mapsto> Str (formatBytes renderBytes (of_int bytesDown)),
                ''disabled'' \<mapsto> Bool (queue ''disabled'' = Some ''true''),
                ''parent'' \<mapsto> Str (orElse (queue ''parent'') ''none'')]
               (''name'' := map_option Str (queue ''name''),
                ''target'' := map_option Str (queue ''target''))
         in ((if isActive then activeQueues + 1 else activeQueues),
             totalBandwidthUp + upBps,
             totalBandwidthDown + downBps,
             queueList @ [Obj entry])))"

text \<open>\<^verbatim>\<open>getQueueStatsFull\<close> of the pooled server; the loop is a fold over \<^verbatim>\<open>limitedQueues\<close>.\<close>

definition getQueueStatsFull ::
  "(real \<Rightarrow> string) \<Rightarrow> (real \<Rightarrow> string) \<Rightarrow> io \<Rightarrow> obj ConnectionPool \<Rightarrow> conn \<Rightarrow> routerConfig
     \<Rightarrow> obj \<times> obj ConnectionPool" where
  "getQueueStatsFull renderBits renderBytes io this conn config =
     (case getFromCache this (at_connected io) (id' config) ''queues'' of
        Some cached \<Rightarrow> (cached, this)
      | None \<Rightarrow>
          (case queue_print io of
             None \<Rightarrow>
               ([''total'' \<mapsto> num 0, ''active'' \<mapsto> num 0, ''disabled'' \<mapsto> num 0,
                 ''totalBandwidthUp'' \<mapsto> Str ''0 bps'', ''totalBandwidthDown'' \<mapsto> Str ''0 bps'',
                 ''queues'' \<mapsto> Arr []], this)
           | Some queues \<Rightarrow>
               (let totalQueues = int (length queues);
                    limitedQueues = take 20 queues
                in case fold (queueStep parseBandwidth renderBits renderBytes) limitedQueues (0, 0, 0, []) of
                     (activeQueues, totalBandwidthUp, totalBandwidthDown, queueList) \<Rightarrow>
                       (let result =
                              [''total'' \<mapsto> num totalQueues,
                               ''active'' \<mapsto> num activeQueues,
                               ''disabled'' \<mapsto> num (totalQueues - activeQueues),
                               ''totalBandwidthUp'' \<mapsto> Str (formatBitsPerSecond renderBits totalBandwidthUp),
                               ''totalBandwidthDown'' \<mapsto> Str (formatBitsPerSecond renderBits totalBandwidthDown),
                               ''queues'' \<mapsto> Arr queueList]
                        in (result, setCache this (at_reply io) (id' config) ''queues'' result)))))"

section \<open>The fleet overview: \<^verbatim>\<open>GET /api/routers\<close>\<close>

definition offline :: "routerConfig \<Rightarrow> obj" where
  "offline config =
     [''id'' \<mapsto> num (id' config), ''name'' \<mapsto> Str (name config), ''ip'' \<mapsto> Str (ip config),
      ''status'' \<mapsto> Str ''offline'', ''error'' \<mapsto> Str ''Connection timeout'',
      ''cpu'' \<mapsto> num 0, ''memoryUsage'' \<mapsto> num 0, ''uptime'' \<mapsto> Str ''0s'',
      ''activeUsers'' \<mapsto> num 0, ''totalQueues'' \<mapsto> num 0, ''activeQueues'' \<mapsto> num 0,
      ''currentBandwidth'' \<mapsto> Str ''0 bps'']"

text \<open>
  The function mapped over \<^verbatim>\<open>routerConfigs\<close>. The three queries catch their own
  failures, so the \<^verbatim>\<open>catch\<close> of the handler is not reached and has no branch here.
\<close>

definition overview ::
  "io \<Rightarrow> obj ConnectionPool \<Rightarrow> routerConfig \<Rightarrow> obj \<times> obj ConnectionPool \<times> call list" where
  "overview io this config =
     (case getFromCache this (at_request io) (id' config) ''overview'' of
        Some cached \<Rightarrow> (cached, this, [])
      | None \<Rightarrow>
          (case getConnection io this config of
             (None, this1, calls) \<Rightarrow> (offline config, this1, calls)
           | (Some conn, this1, calls) \<Rightarrow>
               (case getRouterResources io this1 conn config of (resources, this2) \<Rightarrow>
                  (let users = getActiveUsers io conn config
                   in case getQueueStatsLight io this2 conn config of (queues, this3) \<Rightarrow>
                        (let this4 = releaseConnection this3 (at_merge io) config;
                             result =
                               ([''id'' \<mapsto> num (id' config), ''name'' \<mapsto> Str (name config),
                                 ''ip'' \<mapsto> Str (ip config),
                                 ''status'' \<mapsto> Str (if resources \<noteq> None then ''online'' else ''error''),
                                 ''currentBandwidth'' \<mapsto> Str ''0 bps'']
                                (''activeUsers'' := users ''total'',
                                 ''totalQueues'' := queues ''total'',
                                 ''activeQueues'' := queues ''active''))
                               ++ (case resources of
                                     Some r \<Rightarrow> r
                                   | None \<Rightarrow> [''cpu'' \<mapsto> num 0, ''memoryUsage'' \<mapsto> num 0,
                                              ''uptime'' \<mapsto> Str ''0s''])
                         in (result,
                             setCache this4 (at_merge io) (id' config) ''overview'' result,
                             calls))))))"

text \<open>
  \<^verbatim>\<open>Promise.all(routerConfigs.map(...))\<close> calls the function on every configuration
  before any of the calls continues: a call runs up to its first wait, which is the
  \<^verbatim>\<open>await\<close> of \<^verbatim>\<open>getConnection\<close>, itself waiting for \<^verbatim>\<open>close\<close> or \<^verbatim>\<open>connect\<close>
  unless it found a session to reuse. \<open>pending\<close> is what a call has reached by then.
\<close>

datatype pending =
    Cached obj
  | Reusing conn
  | Closing conn
  | Connecting conn

text \<open>The part of the mapped function that runs at once, up to the first wait.\<close>

definition overviewStart ::
  "io \<Rightarrow> obj ConnectionPool \<Rightarrow> routerConfig \<Rightarrow> pending \<times> obj ConnectionPool \<times> call list" where
  "overviewStart io this config =
     (case getFromCache this (at_request io) (id' config) ''overview'' of
        Some cached \<Rightarrow> (Cached cached, this, [])
      | None \<Rightarrow>
          (let poolKey = toString (id' config) @ ''_'' @ ip config
           in case pools this poolKey of
                None \<Rightarrow>
                  (Connecting (fresh io), this,
                   [Connect (fresh io) (ip config) (username config) (password config)
                      (case port config of None \<Rightarrow> 8728 | Some p \<Rightarrow> if p = 0 then 8728 else p)])
              | Some poolEntry \<Rightarrow>
                  if at_request io - lastUsed poolEntry < 120000 then
                    (Reusing (connection poolEntry),
                     this\<lparr>pools := (pools this)(poolKey \<mapsto>
                       poolEntry\<lparr>lastUsed := at_request io, useCount := useCount poolEntry + 1\<rparr>)\<rparr>,
                     [])
                  else
                    (Closing (connection poolEntry), this,
                     [Close (connection poolEntry) (close_ok io)])))"

text \<open>The \<^verbatim>\<open>try\<close> block of the mapped function: the three queries, the release, the entry.\<close>

definition overviewQueries ::
  "io \<Rightarrow> obj ConnectionPool \<Rightarrow> conn \<Rightarrow> routerConfig \<Rightarrow> obj \<times> obj ConnectionPool" where
  "overviewQueries io this1 conn config =
     (case getRouterResources io this1 conn config of (resources, this2) \<Rightarrow>
        (let users = getActiveUsers io conn config
         in case getQueueStatsLight io this2 conn config of (queues, this3) \<Rightarrow>
              (let this4 = releaseConnection this3 (at_merge io) config;
                   result =
                     ([''id'' \<mapsto> num (id' config), ''name'' \<mapsto> Str (name config),
                       ''ip'' \<mapsto> Str (ip config),
                       ''status'' \<mapsto> Str (if resources \<noteq> None then ''online'' else ''error''),
                       ''currentBandwidth'' \<mapsto> Str ''0 bps'']
                      (''activeUsers'' := users ''total'',
                       ''totalQueues'' := queues ''total'',
                       ''activeQueues'' := queues ''active''))
                     ++ (case resources of
                           Some r \<Rightarrow> r
                         | None \<Rightarrow> [''cpu'' \<mapsto> num 0, ''memoryUsage'' \<mapsto> num 0,
                                    ''uptime'' \<mapsto> Str ''0s''])
               in (result, setCache this4 (at_merge io) (id' config) ''overview'' result))))"

text \<open>
  The rest of the mapped function, run when what it waited for has come: after the
  \<^verbatim>\<open>close\<close> the pool entry is deleted and the \<^verbatim>\<open>connect\<close> is made; after the
  \<^verbatim>\<open>connect\<close> the session is stored, or the offline entry returned.
\<close>

definition overviewFinish ::
  "io \<Rightarrow> obj ConnectionPool \<Rightarrow> routerConfig \<Rightarrow> pending \<Rightarrow> obj \<times> obj ConnectionPool \<times> call list" where
  "overviewFinish io this config waiting =
     (let poolKey = toString (id' config) @ ''_'' @ ip config;
          connected = (\<lambda>this calls.
            if connect_ok io then
              (case overviewQueries io
                      (this\<lparr>pools := (pools this)(poolKey \<mapsto>
                         \<lparr>connection = fresh io, lastUsed = at_connected io, useCount = 1,
                          config' = config\<rparr>)\<rparr>)
                      (fresh io) config of
                 (result, this') \<Rightarrow> (result, this', calls))
            else (offline config, this, calls))
      in case waiting of
           Cached cached \<Rightarrow> (cached, this, [])
         | Reusing conn \<Rightarrow>
             (case overviewQueries io this conn config of (result, this') \<Rightarrow> (result, this', []))
         | Closing _ \<Rightarrow>
             connected (this\<lparr>pools := (pools this)(poolKey := None)\<rparr>)
               [Connect (fresh io) (ip config) (username config) (password config)
                  (case port config of None \<Rightarrow> 8728 | Some p \<Rightarrow> if p = 0 then 8728 else p)]
         | Connecting _ \<Rightarrow> connected this [])"

text \<open>
  The clock reading at which the promise of one call settles: at once for a cached
  entry, when the connect has failed for the offline entry, when the results are
  merged otherwise.
\<close>

definition settled :: "io \<Rightarrow> pending \<Rightarrow> int" where
  "settled io waiting =
     (case waiting of
        Cached _ \<Rightarrow> at_request io
      | Reusing _ \<Rightarrow> at_merge io
      | Closing _ \<Rightarrow> if connect_ok io then at_merge io else at_connected io
      | Connecting _ \<Rightarrow> if connect_ok io then at_merge io else at_connected io)"

definition overviewSettled :: "io \<Rightarrow> obj ConnectionPool \<Rightarrow> routerConfig \<Rightarrow> int" where
  "overviewSettled io this config = settled io (fst (overviewStart io this config))"

text \<open>
  The handler of \<^verbatim>\<open>GET /api/routers\<close>. A branch is a configuration with what the
  outside supplies to its call. First every call is started, in the order of the
  list; then the calls are continued, here in the order of the list, each to its end.
  (For devices with distinct ids the order makes no difference, see
  \<open>routers_nth\<close>.) \<^verbatim>\<open>Promise.all\<close> settles when the last call has settled, and only
  then \<^verbatim>\<open>res.json(results)\<close> sends the entries: \<open>routersAnswered\<close> is the clock reading
  of that moment, for a request that came at \<open>now\<close>.
\<close>

type_synonym branch = "routerConfig \<times> io"

fun startAll ::
  "obj ConnectionPool \<Rightarrow> branch list \<Rightarrow> pending list \<times> obj ConnectionPool \<times> call list" where
  "startAll this [] = ([], this, [])"
| "startAll this ((config, io) # branches) =
     (case overviewStart io this config of (waiting, this1, calls1) \<Rightarrow>
        (case startAll this1 branches of (waitings, this2, calls2) \<Rightarrow>
           (waiting # waitings, this2, calls1 @ calls2)))"

fun finishAll ::
  "obj ConnectionPool \<Rightarrow> (branch \<times> pending) list \<Rightarrow> obj list \<times> obj ConnectionPool \<times> call list" where
  "finishAll this [] = ([], this, [])"
| "finishAll this (((config, io), waiting) # rest) =
     (case overviewFinish io this config waiting of (result, this1, calls1) \<Rightarrow>
        (case finishAll this1 rest of (results, this2, calls2) \<Rightarrow>
           (result # results, this2, calls1 @ calls2)))"

definition routers ::
  "obj ConnectionPool \<Rightarrow> branch list \<Rightarrow> obj list \<times> obj ConnectionPool \<times> call list" where
  "routers this branches =
     (case startAll this branches of (waitings, this1, calls1) \<Rightarrow>
        (case finishAll this1 (zip branches waitings) of (results, this2, calls2) \<Rightarrow>
           (results, this2, calls1 @ calls2)))"

definition routersAnswered :: "int \<Rightarrow> obj ConnectionPool \<Rightarrow> branch list \<Rightarrow> int" where
  "routersAnswered now this branches =
     fold max (map2 (\<lambda>branch waiting. settled (snd branch) waiting)
                 branches (fst (startAll this branches))) now"


section \<open>The first server: \<^verbatim>\<open>backend/server.js\<close>\<close>

text \<open>
  \<^verbatim>\<open>backend/server.js\<close> has no pool and no cache: every request connects, queries and
  closes. Its only state is \<^verbatim>\<open>trafficHistory\<close>. What the outside supplies for one
  device: whether the connect succeeds, the reply to each query (\<open>None\<close>: it throws),
  the clock reading during the rate loop, and the error text when the close throws.
\<close>

record io_server =
  connects :: bool
  resource_rows :: "row list option"
  health_rows :: "row list option"
  interface_rows :: "row list option"
  queue_rows :: "row list option"
  traffic_rows :: "row list option"
  rates_time :: int
  close_error :: "string option"

text \<open>\<^verbatim>\<open>parseBandwidth\<close> of \<^verbatim>\<open>backend/server.js\<close>: \<^verbatim>\<open>/(\d+)([KMG]?)/i\<close> and \<^verbatim>\<open>parseInt\<close>.\<close>

definition parseBandwidth_server :: "string option \<Rightarrow> real" where
  "parseBandwidth_server bandwidth =
     (case bandwidth of
        None \<Rightarrow> 0
      | Some text \<Rightarrow>
          (let s = dropWhile (\<lambda>c. \<not> isDigit c) text
           in if s = [] then 0
              else
                (let r = dropWhile isDigit s;
                     unit = (case r of
                               [] \<Rightarrow> []
                             | c # _ \<Rightarrow> if c \<in> set ''KMGkmg'' then [toUpperCase c] else []);
                     value = real (numberOf 10 (takeWhile isDigit s));
                     multiplier =
                       (if unit = ''K'' then 1000 else if unit = ''M'' then 1000000
                        else if unit = ''G'' then 1000000000 else 1)
                 in value * multiplier)))"

text \<open>\<^verbatim>\<open>rows[0]?.[property]\<close>: \<^verbatim>\<open>undefined\<close> when the reply has no row.\<close>

definition first :: "row list \<Rightarrow> string \<Rightarrow> string option" where
  "first rows property = (case rows of [] \<Rightarrow> None | r # _ \<Rightarrow> r property)"

text \<open>\<^verbatim>\<open>x || null\<close> on an optional string.\<close>

definition orNull :: "string option \<Rightarrow> jsval" where
  "orNull x = (case x of None \<Rightarrow> Null | Some t \<Rightarrow> if t = [] then Null else Str t)"

definition getRouterResources_server :: "io_server \<Rightarrow> obj option" where
  "getRouterResources_server io =
     (case resource_rows io of
        None \<Rightarrow> None
      | Some resources \<Rightarrow>
          (let health = (case health_rows io of None \<Rightarrow> [] | Some rows \<Rightarrow> rows);
               totalMem = parseIntOr0 (first resources ''total-memory'');
               freeMem = parseIntOr0 (first resources ''free-memory'');
               usedMem = totalMem - freeMem
           in Some
                [''cpu'' \<mapsto> num (parseIntOr0 (first resources ''cpu-load'')),
                 ''cpuLoad'' \<mapsto> Str (orElse (first resources ''cpu-load'') ''0''),
                 ''memoryTotal'' \<mapsto> num totalMem,
                 ''memoryFree'' \<mapsto> num freeMem,
                 ''memoryUsed'' \<mapsto> num usedMem,
                 ''memoryUsage'' \<mapsto>
                   num (if totalMem > 0
                        then Math_round (fl (fl (of_int usedMem / of_int totalMem) * 100)) else 0),
                 ''uptime'' \<mapsto> Str (orElse (first resources ''uptime'') ''0s''),
                 ''version'' \<mapsto> Str (orElse (first resources ''version'') ''unknown''),
                 ''board'' \<mapsto> Str (orElse (first resources ''board-name'') ''unknown''),
                 ''temperature'' \<mapsto> orNull (first health ''temperature''),
                 ''voltage'' \<mapsto> orNull (first health ''voltage'')]))"

definition getActiveUsers_server :: "io_server \<Rightarrow> obj" where
  "getActiveUsers_server io =
     (case interface_rows io of
        None \<Rightarrow> [''dhcp'' \<mapsto> num 0, ''hotspot'' \<mapsto> num 0, ''pppoe'' \<mapsto> num 0, ''total'' \<mapsto> num 0]
      | Some interfaces \<Rightarrow>
          (let pppoeCount = int (length (filter
                 (\<lambda>iface. iface ''type'' = Some ''pppoe-in'' \<and> iface ''running'' = Some ''true'')
                 interfaces))
           in [''dhcp'' \<mapsto> num 0, ''hotspot'' \<mapsto> num 0,
               ''pppoe'' \<mapsto> num pppoeCount, ''total'' \<mapsto> num pppoeCount]))"

text \<open>
  \<^verbatim>\<open>getQueueStats\<close>: the loop runs over every queue of the reply, and only the list
  that is returned is cut, to ten entries.
\<close>

definition getQueueStats :: "(real \<Rightarrow> string) \<Rightarrow> (real \<Rightarrow> string) \<Rightarrow> io_server \<Rightarrow> obj" where
  "getQueueStats renderBits renderBytes io =
     (case queue_rows io of
        None \<Rightarrow>
          [''total'' \<mapsto> num 0, ''active'' \<mapsto> num 0, ''disabled'' \<mapsto> num 0,
           ''totalBandwidthUp'' \<mapsto> Str ''0 bps'', ''totalBandwidthDown'' \<mapsto> Str ''0 bps'',
           ''queues'' \<mapsto> Arr []]
      | Some queues \<Rightarrow>
          (let totalQueues = int (length queues)
           in case fold (queueStep parseBandwidth_server renderBits renderBytes) queues (0, 0, 0, []) of
                (activeQueues, totalBandwidthUp, totalBandwidthDown, queueList) \<Rightarrow>
                  [''total'' \<mapsto> num totalQueues,
                   ''active'' \<mapsto> num activeQueues,
                   ''disabled'' \<mapsto> num (totalQueues - activeQueues),
                   ''totalBandwidthUp'' \<mapsto> Str (formatBitsPerSecond renderBits totalBandwidthUp),
                   ''totalBandwidthDown'' \<mapsto> Str (formatBitsPerSecond renderBits totalBandwidthDown),
                   ''queues'' \<mapsto> Arr (take 10 queueList)]))"

definition startsWith :: "string \<Rightarrow> string \<Rightarrow> bool" where
  "startsWith text p = (take (length p) text = p)"

text \<open>
  One round of the loop of \<^verbatim>\<open>getBandwidthRates\<close> over the interfaces. The
  accumulator holds \<^verbatim>\<open>trafficHistory\<close>, \<^verbatim>\<open>bandwidthList\<close>, \<^verbatim>\<open>totalRxRate\<close>,
  \<^verbatim>\<open>totalTxRate\<close> and \<^verbatim>\<open>interfaceCount\<close>; the boolean says whether the loop goes
  on. A row without a name makes \<^verbatim>\<open>ifaceName.startsWith\<close> throw: the inner
  \<^verbatim>\<open>catch\<close> ends the loop and keeps what was accumulated. The loop also ends at
  the twelfth interface that is listed.
\<close>

definition rateStep ::
  "(real \<Rightarrow> string) \<Rightarrow> int \<Rightarrow> int \<Rightarrow> row
     \<Rightarrow> trafficHistory \<times> jsval list \<times> int \<times> int \<times> nat
     \<Rightarrow> (trafficHistory \<times> jsval list \<times> int \<times> int \<times> nat) \<times> bool" where
  "rateStep renderBits now routerId iface acc =
     (case acc of (trafficHistory, bandwidthList, totalRxRate, totalTxRate, interfaceCount) \<Rightarrow>
        (case iface ''name'' of
           None \<Rightarrow> (acc, False)
         | Some ifaceName \<Rightarrow>
             if \<not> startsWith ifaceName ''ether'' \<and> \<not> startsWith ifaceName ''vlan''
                \<and> \<not> startsWith ifaceName ''bridge'' \<and> \<not> startsWith ifaceName ''pppoe''
                \<and> iface ''type'' \<notin> Some ` set [''ether'', ''vlan'', ''bridge'', ''ppp-out'']
             then (acc, True)
             else if iface ''disabled'' = Some ''true'' then (acc, True)
             else
               (let currentRx = parseIntOr0 (iface ''rx-byte'');
                    currentTx = parseIntOr0 (iface ''tx-byte'');
                    computed = calculateRates_server trafficHistory now routerId ifaceName currentRx currentTx;
                    rx = rxRate (fst computed);
                    tx = txRate (fst computed)
                in if rx > 1000 \<or> tx > 1000 then
                     (let entry =
                            [''name'' \<mapsto> Str ifaceName,
                             ''rxRate'' \<mapsto> num rx,
                             ''txRate'' \<mapsto> num tx,
                             ''rxRateFormatted'' \<mapsto> Str (formatBitsPerSecond renderBits (of_int rx)),
                             ''txRateFormatted'' \<mapsto> Str (formatBitsPerSecond renderBits (of_int tx)),
                             ''rxBytes'' \<mapsto> num currentRx,
                             ''txBytes'' \<mapsto> num currentTx,
                             ''running'' \<mapsto> Bool (iface ''running'' = Some ''true'')]
                            (''type'' := map_option Str (iface ''type''));
                          primary = (ifaceName = ''ether1'')
                      in ((snd computed, bandwidthList @ [Obj entry],
                           (if primary then rx else totalRxRate),
                           (if primary then tx else totalTxRate),
                           interfaceCount + 1),
                          \<not> interfaceCount + 1 \<ge> 12))
                   else
                     ((snd computed, bandwidthList, totalRxRate, totalTxRate, interfaceCount), True))))"

fun ratesLoop ::
  "(real \<Rightarrow> string) \<Rightarrow> int \<Rightarrow> int \<Rightarrow> row list
     \<Rightarrow> trafficHistory \<times> jsval list \<times> int \<times> int \<times> nat
     \<Rightarrow> trafficHistory \<times> jsval list \<times> int \<times> int \<times> nat" where
  "ratesLoop renderBits now routerId [] acc = acc"
| "ratesLoop renderBits now routerId (iface # interfaces) acc =
     (let step = rateStep renderBits now routerId iface acc
      in if snd step then ratesLoop renderBits now routerId interfaces (fst step) else fst step)"

definition getBandwidthRates_server ::
  "(real \<Rightarrow> string) \<Rightarrow> io_server \<Rightarrow> trafficHistory \<Rightarrow> int \<Rightarrow> obj \<times> trafficHistory" where
  "getBandwidthRates_server renderBits io trafficHistory routerId =
     (case (case traffic_rows io of
              None \<Rightarrow> (trafficHistory, [], 0, 0, 0)
            | Some interfaces \<Rightarrow>
                ratesLoop renderBits (rates_time io) routerId interfaces (trafficHistory, [], 0, 0, 0)) of
        (trafficHistory', bandwidthList, totalRxRate, totalTxRate, interfaceCount) \<Rightarrow>
          (let listed =
                 (if bandwidthList = [] then
                    [Obj [''name'' \<mapsto> Str ''ether1'', ''type'' \<mapsto> Str ''ether'',
                          ''rxRate'' \<mapsto> num 0, ''txRate'' \<mapsto> num 0,
                          ''rxRateFormatted'' \<mapsto> Str ''0 bps'', ''txRateFormatted'' \<mapsto> Str ''0 bps'',
                          ''rxBytes'' \<mapsto> num 0, ''txBytes'' \<mapsto> num 0, ''running'' \<mapsto> Bool True]]
                  else bandwidthList)
           in ([''totalRxRate'' \<mapsto> num totalRxRate,
                ''totalTxRate'' \<mapsto> num totalTxRate,
                ''totalRxRateFormatted'' \<mapsto> Str (formatBitsPerSecond renderBits (of_int totalRxRate)),
                ''totalTxRateFormatted'' \<mapsto> Str (formatBitsPerSecond renderBits (of_int totalTxRate)),
                ''interfaces'' \<mapsto> Arr (take 20 listed)],
               trafficHistory')))"

definition offline_server :: "routerConfig \<Rightarrow> obj" where
  "offline_server config =
     [''id'' \<mapsto> num (id' config), ''name'' \<mapsto> Str (name config), ''ip'' \<mapsto> Str (ip config),
      ''status'' \<mapsto> Str ''offline'', ''error'' \<mapsto> Str ''Connection timeout'',
      ''cpu'' \<mapsto> num 0, ''memoryUsage'' \<mapsto> num 0, ''uptime'' \<mapsto> Str ''0s'',
      ''activeUsers'' \<mapsto> num 0]"

text \<open>
  The function mapped over \<^verbatim>\<open>routerConfigs\<close> by \<^verbatim>\<open>GET /api/routers\<close> of
  \<^verbatim>\<open>backend/server.js\<close>. The four queries catch their own failures; the \<^verbatim>\<open>catch\<close>
  of the handler is reached when \<^verbatim>\<open>conn.close()\<close> throws.
\<close>

definition overview_server ::
  "(real \<Rightarrow> string) \<Rightarrow> (real \<Rightarrow> string) \<Rightarrow> io_server \<Rightarrow> trafficHistory \<Rightarrow> routerConfig
     \<Rightarrow> obj \<times> trafficHistory" where
  "overview_server renderBits renderBytes io trafficHistory config =
     (if \<not> connects io then (offline_server config, trafficHistory)
      else
        (let resources = getRouterResources_server io;
             users = getActiveUsers_server io;
             queues = getQueueStats renderBits renderBytes io;
             measured = getBandwidthRates_server renderBits io trafficHistory (id' config);
             bandwidth = fst measured
         in case close_error io of
              Some message \<Rightarrow>
                ([''id'' \<mapsto> num (id' config), ''name'' \<mapsto> Str (name config), ''ip'' \<mapsto> Str (ip config),
                  ''status'' \<mapsto> Str ''error'', ''error'' \<mapsto> Str message,
                  ''cpu'' \<mapsto> num 0, ''memoryUsage'' \<mapsto> num 0, ''uptime'' \<mapsto> Str ''0s'',
                  ''activeUsers'' \<mapsto> num 0],
                 snd measured)
            | None \<Rightarrow>
                (([''id'' \<mapsto> num (id' config), ''name'' \<mapsto> Str (name config),
                   ''ip'' \<mapsto> Str (ip config),
                   ''status'' \<mapsto> Str (if resources \<noteq> None then ''online'' else ''error'')]
                  (''activeUsers'' := users ''total'',
                   ''totalQueues'' := queues ''total'',
                   ''activeQueues'' := queues ''active'',
                   ''currentBandwidth'' := bandwidth ''totalRxRateFormatted''))
                 ++ (case resources of
                       Some r \<Rightarrow> r
                     | None \<Rightarrow> [''cpu'' \<mapsto> num 0, ''memoryUsage'' \<mapsto> num 0,
                                ''uptime'' \<mapsto> Str ''0s'']),
                 snd measured)))"

fun routers_server ::
  "(real \<Rightarrow> string) \<Rightarrow> (real \<Rightarrow> string) \<Rightarrow> (routerConfig \<Rightarrow> io_server) \<Rightarrow> trafficHistory
     \<Rightarrow> routerConfig list \<Rightarrow> obj list \<times> trafficHistory" where
  "routers_server renderBits renderBytes world trafficHistory [] = ([], trafficHistory)"
| "routers_server renderBits renderBytes world trafficHistory (config # routerConfigs) =
     (case overview_server renderBits renderBytes (world config) trafficHistory config of
        (result, trafficHistory1) \<Rightarrow>
          (case routers_server renderBits renderBytes world trafficHistory1 routerConfigs of
             (results, trafficHistory2) \<Rightarrow> (result # results, trafficHistory2)))"


section \<open>Example inputs\<close>

text \<open>The concrete devices, pools and adapter behaviours at which the theorems are instantiated.\<close>

abbreviation router1 :: routerConfig where
  "router1 \<equiv> \<lparr>id' = 1, name = ''core'', ip = ''10.0.0.1'', username = ''admin'',
               password = ''secret'', port = None\<rparr>"

abbreviation router2 :: routerConfig where
  "router2 \<equiv> \<lparr>id' = 2, name = ''edge'', ip = ''10.0.0.2'', username = ''admin'',
               password = ''secret'', port = None\<rparr>"

text \<open>A device that refuses the connection, and whose close fails.\<close>

abbreviation unreachable :: io where
  "unreachable \<equiv>
     \<lparr>at_request = 1000, at_connected = 1050, at_reply = 1100, at_merge = 1110, fresh = 8,
      connect_ok = False, connect_message = ''connect ECONNREFUSED 10.0.0.1:8728'',
      close_ok = False, resource_print = None, pppoe_print = None,
      queue_count = None, queue_count_active = None, queue_print = None\<rparr>"

text \<open>A device that answers every query of the overview.\<close>

abbreviation answering :: io where
  "answering \<equiv>
     unreachable\<lparr>connect_ok := True,
       resource_print := Some [[''cpu-load'' \<mapsto> ''7'', ''total-memory'' \<mapsto> ''1000'',
                                ''free-memory'' \<mapsto> ''250'', ''uptime'' \<mapsto> ''1d'',
                                ''version'' \<mapsto> ''7.1'', ''board-name'' \<mapsto> ''hEX'']],
       pppoe_print := Some [Map.empty, Map.empty],
       queue_count := Some [Text ''5''],
       queue_count_active := Some [Text ''4'']\<rparr>"

text \<open>A device that accepts the connection and fails the resource query.\<close>

abbreviation failing :: io where
  "failing \<equiv> answering\<lparr>resource_print := None\<rparr>"

abbreviation emptyPool :: "'v ConnectionPool" where
  "emptyPool \<equiv> \<lparr>pools = Map.empty, cacheData = Map.empty\<rparr>"

text \<open>A pool that holds a session of the first device, last used at time 1000.\<close>

abbreviation warmPool :: "nat ConnectionPool" where
  "warmPool \<equiv>
     \<lparr>pools = [''1_10.0.0.1'' \<mapsto> \<lparr>connection = 7, lastUsed = 1000, useCount = 3, config' = router1\<rparr>],
      cacheData = Map.empty\<rparr>"

text \<open>Twenty-one enabled queues, each limited to 1M up and 2M down.\<close>

abbreviation manyQueues :: "row list" where
  "manyQueues \<equiv> replicate 21 [''name'' \<mapsto> ''q'', ''max-limit'' \<mapsto> ''1M/2M'']"

text \<open>A device, as \<^verbatim>\<open>backend/server.js\<close> sees it, that refuses the connection.\<close>

abbreviation quiet :: io_server where
  "quiet \<equiv>
     \<lparr>connects = False, resource_rows = None, health_rows = None, interface_rows = None,
      queue_rows = None, traffic_rows = None, rates_time = 1000, close_error = None\<rparr>"

text \<open>A device that answers every query of \<^verbatim>\<open>backend/server.js\<close>.\<close>

abbreviation talkative :: io_server where
  "talkative \<equiv>
     quiet\<lparr>connects := True,
       resource_rows := Some [[''cpu-load'' \<mapsto> ''7'', ''total-memory'' \<mapsto> ''1000'',
                               ''free-memory'' \<mapsto> ''250'', ''uptime'' \<mapsto> ''1d'']],
       interface_rows := Some [[''name'' \<mapsto> ''pppoe-in1'', ''type'' \<mapsto> ''pppoe-in'',
                                ''running'' \<mapsto> ''true'']],
       queue_rows := Some [[''name'' \<mapsto> ''q'', ''max-limit'' \<mapsto> ''1M/2M'']],
       traffic_rows := Some [[''name'' \<mapsto> ''ether1'', ''type'' \<mapsto> ''ether'',
                              ''rx-byte'' \<mapsto> ''5000'', ''tx-byte'' \<mapsto> ''700'']]\<rparr>"

text \<open>A stand-in for the rendering of a number that is not zero.\<close>

abbreviation hash :: "real \<Rightarrow> string" where
  "hash \<equiv> (\<lambda>x. ''#'')"

section \<open>The entries of one device\<close>

text \<open>
  Two states of the pool agree on a device when they hold the same pool entries and the
  same cache entries under every key that begins with the id of the device.
\<close>

abbreviation agree :: "int \<Rightarrow> 'v ConnectionPool \<Rightarrow> 'v ConnectionPool \<Rightarrow> bool" where
  "agree routerId this this' \<equiv>
     (\<forall>x. pools this (toString routerId @ ''_'' @ x) = pools this' (toString routerId @ ''_'' @ x)
        \<and> cacheData this (toString routerId @ ''_'' @ x) = cacheData this' (toString routerId @ ''_'' @ x))"

section \<open>Rounding and the rendering of ids\<close>

lemma Math_round_of_int: "Math_round (of_int n) = n"
  unfolding Math_round_def by linarith


lemma toString_1: "toString 1 = ''1''"
  by (simp add: toString_def digits.simps digit_def)

lemma toString_2: "toString 2 = ''2''"
  by (simp add: toString_def digits.simps digit_def)

text \<open>
  The exponent brackets a positive number: \<open>pow2 (expo a) \<le> a < pow2 (expo a + 1)\<close>.
  Rounding to a double moves a number by at most the fraction \<open>1 / 2 ^ 53\<close> of its
  magnitude. So the elapsed seconds, a whole number of milliseconds divided by 1000,
  are on the same side of the minimum interval after rounding as before, and are zero
  only when no millisecond has elapsed.
\<close>

lemma bits_upper: "n < 2 ^ bits n"
proof (induction n rule: bits.induct)
  case (1 n)
  show ?case
  proof (cases "n = 0")
    case True
    then show ?thesis by (simp add: bits.simps)
  next
    case False
    with 1 have "n div 2 < 2 ^ bits (n div 2)" by simp
    hence "n < 2 * 2 ^ bits (n div 2)" by arith
    with False show ?thesis by (subst bits.simps) simp
  qed
qed

lemma bits_lower: "0 < n \<Longrightarrow> 2 ^ (bits n - 1) \<le> n"
proof (induction n rule: bits.induct)
  case (1 n)
  show ?case
  proof (cases "n div 2 = 0")
    case True
    with 1(2) have "n = 1" by arith
    then show ?thesis by (simp add: bits.simps)
  next
    case False
    with 1 have ih: "2 ^ (bits (n div 2) - 1) \<le> n div 2" by simp
    from False have "bits (n div 2) \<noteq> 0" by (subst bits.simps) simp
    then obtain k where k: "bits (n div 2) = Suc k" by (cases "bits (n div 2)") auto
    from ih k have "2 * 2 ^ k \<le> n" by simp
    moreover from 1(2) k have "bits n = Suc (Suc k)" by (subst bits.simps) simp
    ultimately show ?thesis by simp
  qed
qed

lemma pow2_pos: "0 < pow2 k"
  by (simp add: pow2_def)

lemma pow2_expo_le:
  assumes "0 < a"
  shows "pow2 (expo a) \<le> a"
proof (cases "1 \<le> a")
  case True
  hence pos: "0 < nat \<lfloor>a\<rfloor>" by simp
  from bits_lower [OF pos] have "(2::nat) ^ (bits (nat \<lfloor>a\<rfloor>) - 1) \<le> nat \<lfloor>a\<rfloor>" .
  hence "real ((2::nat) ^ (bits (nat \<lfloor>a\<rfloor>) - 1)) \<le> real (nat \<lfloor>a\<rfloor>)"
    by (rule iffD2 [OF of_nat_le_iff])
  also from True have "real (nat \<lfloor>a\<rfloor>) = of_int \<lfloor>a\<rfloor>" by simp
  also have "\<dots> \<le> a" by simp
  finally have le: "2 ^ (bits (nat \<lfloor>a\<rfloor>) - 1) \<le> a" by simp
  from pos have "bits (nat \<lfloor>a\<rfloor>) \<noteq> 0" by (subst bits.simps) simp
  hence "nat (int (bits (nat \<lfloor>a\<rfloor>)) - 1) = bits (nat \<lfloor>a\<rfloor>) - 1"
    and "0 \<le> int (bits (nat \<lfloor>a\<rfloor>)) - 1" by arith+
  with True le show ?thesis by (simp add: expo_def pow2_def)
next
  case False
  define k where "k = nat (\<lceil>1 / a\<rceil> - 1)"
  from False assms have "1 < 1 / a" by simp
  hence c: "2 \<le> \<lceil>1 / a\<rceil>" by linarith
  have "k < 2 ^ bits k" by (rule bits_upper)
  hence "int k < 2 ^ bits k" by (metis of_nat_less_iff of_nat_numeral of_nat_power)
  moreover from c have "int k = \<lceil>1 / a\<rceil> - 1" unfolding k_def by linarith
  ultimately have "\<lceil>1 / a\<rceil> \<le> 2 ^ bits k" by linarith
  hence "real_of_int \<lceil>1 / a\<rceil> \<le> 2 ^ bits k"
    by (metis of_int_le_iff of_int_numeral of_int_power)
  moreover have "1 / a \<le> of_int \<lceil>1 / a\<rceil>" by simp
  ultimately have "1 / a \<le> 2 ^ bits k" by linarith
  with assms have "1 / 2 ^ bits k \<le> a"
    by (simp add: field_simps)
  moreover from c have "k \<noteq> 0" by (simp add: k_def)
  hence "bits k \<noteq> 0" by (subst bits.simps) simp
  ultimately show ?thesis using False by (simp add: expo_def pow2_def k_def)
qed

lemma expo_upper:
  assumes "0 < a"
  shows "a < pow2 (expo a + 1)"
proof (cases "1 \<le> a")
  case True
  hence pos: "0 < nat \<lfloor>a\<rfloor>" by simp
  have "nat \<lfloor>a\<rfloor> < 2 ^ bits (nat \<lfloor>a\<rfloor>)" by (rule bits_upper)
  hence "int (nat \<lfloor>a\<rfloor>) < 2 ^ bits (nat \<lfloor>a\<rfloor>)"
    by (metis of_nat_less_iff of_nat_numeral of_nat_power)
  with True have "\<lfloor>a\<rfloor> + 1 \<le> 2 ^ bits (nat \<lfloor>a\<rfloor>)" by simp
  hence "real_of_int (\<lfloor>a\<rfloor> + 1) \<le> 2 ^ bits (nat \<lfloor>a\<rfloor>)"
    by (metis of_int_le_iff of_int_numeral of_int_power)
  moreover have "a < real_of_int (\<lfloor>a\<rfloor> + 1)" by linarith
  ultimately have "a < 2 ^ bits (nat \<lfloor>a\<rfloor>)" by linarith
  with True show ?thesis by (simp add: expo_def pow2_def)
next
  case False
  define k where "k = nat (\<lceil>1 / a\<rceil> - 1)"
  from False assms have "1 < 1 / a" by simp
  hence c: "2 \<le> \<lceil>1 / a\<rceil>" by linarith
  hence k: "int k = \<lceil>1 / a\<rceil> - 1" and pos: "0 < k" unfolding k_def by linarith+
  from bits_lower [OF pos] have "int (2 ^ (bits k - 1)) \<le> int k" by (rule iffD2 [OF of_nat_le_iff])
  hence "2 ^ (bits k - 1) \<le> \<lceil>1 / a\<rceil> - 1" using k by simp
  hence "real_of_int (2 ^ (bits k - 1)) \<le> real_of_int (\<lceil>1 / a\<rceil> - 1)" by (rule iffD2 [OF of_int_le_iff])
  moreover have "real_of_int (\<lceil>1 / a\<rceil> - 1) < 1 / a" by linarith
  ultimately have "2 ^ (bits k - 1) < 1 / a" by simp
  with assms have less: "a < 1 / 2 ^ (bits k - 1)" by (simp add: field_simps)
  from pos have "bits k \<noteq> 0" by (subst bits.simps) simp
  hence "nat (int (bits k) - 1) = bits k - 1" "\<not> 0 < 1 - int (bits k) " by arith+
  with False less show ?thesis
    by (cases "bits k = 1") (simp_all add: expo_def pow2_def k_def [symmetric])
qed

lemma roundEven_error: "\<bar>of_int (roundEven m) - m\<bar> \<le> 1 / 2"
proof -
  have "of_int \<lfloor>m\<rfloor> \<le> m" "m < of_int \<lfloor>m\<rfloor> + 1" by linarith+
  thus ?thesis by (auto simp add: roundEven_def Let_def)
qed

lemma fl_error: "\<bar>fl x - x\<bar> \<le> \<bar>x\<bar> / 2 ^ 53"
proof (cases "of_int \<lfloor>x\<rfloor> = x")
  case True
  then show ?thesis by (simp add: fl_def)
next
  case False
  hence nz: "0 < \<bar>x\<bar>" by auto
  define ulp where "ulp = pow2 (expo \<bar>x\<bar>) / 2 ^ 52"
  have pos: "0 < ulp" by (simp add: ulp_def pow2_pos)
  have "fl x = of_int (roundEven (x / ulp)) * ulp"
    using False by (simp add: fl_def round53_def Let_def ulp_def)
  moreover from pos have "x / ulp * ulp = x" by simp
  ultimately have "fl x - x = (of_int (roundEven (x / ulp)) - x / ulp) * ulp"
    by (simp only: left_diff_distrib)
  hence "\<bar>fl x - x\<bar> = \<bar>of_int (roundEven (x / ulp)) - x / ulp\<bar> * ulp"
    using pos by (simp add: abs_mult)
  also have "\<dots> \<le> 1 / 2 * ulp"
    using roundEven_error [of "x / ulp"] pos by (intro mult_right_mono) simp_all
  also have "\<dots> = pow2 (expo \<bar>x\<bar>) / 2 ^ 53" by (simp add: ulp_def)
  also have "\<dots> \<le> \<bar>x\<bar> / 2 ^ 53"
    using pow2_expo_le [OF nz] by (simp add: divide_right_mono)
  finally show ?thesis .
qed

lemma fl_of_int [simp]: "fl (of_int n) = of_int n"
  by (simp add: fl_def)

lemma fl_numeral [simp]: "fl (numeral n) = numeral n"
  by (simp add: fl_def)

lemma fl_0 [simp]: "fl 0 = 0"
  by (simp add: fl_def)

lemma fl_1 [simp]: "fl 1 = 1"
  by (simp add: fl_def)

lemma fl_zero_iff: "fl x = 0 \<longleftrightarrow> x = 0"
proof
  assume "fl x = 0"
  with fl_error [of x] have "\<bar>x\<bar> \<le> \<bar>x\<bar> / 2 ^ 53" by simp
  thus "x = 0" by (simp add: field_simps)
next
  assume "x = 0"
  thus "fl x = 0" by (simp add: fl_def)
qed

lemma fl_bounds: "x - \<bar>x\<bar> / 2 ^ 53 \<le> fl x \<and> fl x \<le> x + \<bar>x\<bar> / 2 ^ 53"
  using fl_error [of x] by linarith


lemma fl_nonpos: "x \<le> 0 \<Longrightarrow> fl x \<le> 0"
  using fl_bounds [of x] by simp

lemma fl_half: "fl (1 / 2) = 1 / 2"
  by (simp add: fl_def round53_def roundEven_def expo_def pow2_def bits.simps Let_def)



lemma fl_seconds_less_1500:
  assumes "0 \<le> (e::int)" "e < 1500"
  shows "fl (of_int e / 1000) < 3 / 2"
proof -
  from assms have "(of_int e / 1000 :: real) \<le> 1499 / 1000" "0 \<le> (of_int e / 1000 :: real)" by simp_all
  with fl_bounds [of "of_int e / 1000"] show ?thesis by simp
qed

lemma fl_seconds_ge_2000:
  assumes "2000 \<le> (e::int)"
  shows "2 \<le> fl (of_int e / 1000)"
proof (cases "e = 2000")
  case True
  then show ?thesis by (simp add: fl_def)
next
  case False
  with assms have "2001 \<le> e" by simp
  hence "2001 / 1000 \<le> (of_int e / 1000 :: real)" by simp
  with fl_bounds [of "of_int e / 1000"] show ?thesis by simp
qed

lemma fl_seconds_less_2000:
  assumes "(e::int) < 2000"
  shows "fl (of_int e / 1000) < 2"
proof (cases "0 \<le> e")
  case True
  with assms have "(of_int e / 1000 :: real) \<le> 1999 / 1000" "0 \<le> (of_int e / 1000 :: real)" by simp_all
  with fl_bounds [of "of_int e / 1000"] show ?thesis by simp
next
  case False
  hence "(of_int e / 1000 :: real) \<le> 0" by simp
  from fl_nonpos [OF this] show ?thesis by simp
qed

lemma fl_seconds_zero_iff: "fl (of_int e / 1000) = 0 \<longleftrightarrow> e = 0"
  by (simp add: fl_zero_iff)

text \<open>
  The decimal text of an id determines the id and contains no underscore, so a key
  \<^verbatim>\<open>`${id}_${rest}`\<close> determines both the id and the rest.
\<close>

lemma digit_cases:
  "d < (10::nat) \<Longrightarrow> d = 0 \<or> d = 1 \<or> d = 2 \<or> d = 3 \<or> d = 4 \<or> d = 5 \<or> d = 6 \<or> d = 7 \<or> d = 8 \<or> d = 9"
  by arith

lemma digitVal_digit: "d < 10 \<Longrightarrow> digitVal (digit d) = d"
  by (drule digit_cases) (elim disjE; simp add: digit_def digitVal_def isDigit_def)

lemma isDigit_digit: "d < 10 \<Longrightarrow> isDigit (digit d)"
  by (drule digit_cases) (elim disjE; simp add: digit_def isDigit_def)

lemma numberOf_snoc: "numberOf radix (ds @ [c]) = numberOf radix ds * radix + digitVal c"
  by (simp add: numberOf_def)

lemma numberOf_digits: "numberOf 10 (digits n) = n"
proof (induction n rule: digits.induct)
  case (1 n)
  show ?case
  proof (cases "n < 10")
    case True
    then show ?thesis
      by (subst digits.simps) (simp add: numberOf_def digitVal_digit)
  next
    case False
    then have "numberOf 10 (digits (n div 10)) = n div 10" using 1 by simp
    with False show ?thesis
      by (subst digits.simps) (simp add: numberOf_snoc digitVal_digit)
  qed
qed

lemma digits_isDigit: "c \<in> set (digits n) \<Longrightarrow> isDigit c"
proof (induction n rule: digits.induct)
  case (1 n)
  show ?case
  proof (cases "n < 10")
    case True
    with 1(2) show ?thesis
      by (subst (asm) digits.simps) (simp add: isDigit_digit)
  next
    case False
    with 1 show ?thesis
      by (subst (asm) (2) digits.simps) (auto simp: isDigit_digit)
  qed
qed

lemma digits_not_Nil: "digits n \<noteq> []"
  by (subst digits.simps) simp

lemma digits_inj: "digits a = digits b \<Longrightarrow> a = b"
  by (metis numberOf_digits)

lemma toString_inj: "toString a = toString b \<Longrightarrow> a = b"
proof -
  assume eq: "toString a = toString b"
  have minus: "\<not> isDigit CHR ''-''" by (simp add: isDigit_def)
  have hd_digit: "isDigit (hd (digits n))" for n
    using digits_isDigit [of "hd (digits n)" n] digits_not_Nil [of n] by simp
  show "a = b"
  proof (cases "a < 0")
    case True
    show ?thesis
    proof (cases "b < 0")
      case True
      with \<open>a < 0\<close> eq have "nat (- a) = nat (- b)"
        by (auto simp: toString_def dest: digits_inj)
      with True \<open>a < 0\<close> show ?thesis by simp
    next
      case False
      with \<open>a < 0\<close> eq have "CHR ''-'' # digits (nat (- a)) = digits (nat b)"
        by (simp add: toString_def)
      then have "hd (digits (nat b)) = CHR ''-''" by (metis list.sel(1))
      with hd_digit [of "nat b"] minus show ?thesis by simp
    qed
  next
    case False
    show ?thesis
    proof (cases "b < 0")
      case True
      with \<open>\<not> a < 0\<close> eq have "digits (nat a) = CHR ''-'' # digits (nat (- b))"
        by (simp add: toString_def)
      then have "hd (digits (nat a)) = CHR ''-''" by (metis list.sel(1))
      with hd_digit [of "nat a"] minus show ?thesis by simp
    next
      case False
      with \<open>\<not> a < 0\<close> eq have "nat a = nat b"
        by (auto simp: toString_def dest: digits_inj)
      with False \<open>\<not> a < 0\<close> show ?thesis by simp
    qed
  qed
qed

lemma toString_no_underscore: "c \<in> set (toString n) \<Longrightarrow> c \<noteq> CHR ''_''"
proof -
  have "\<not> isDigit CHR ''_''" by (simp add: isDigit_def)
  moreover assume "c \<in> set (toString n)"
  ultimately show ?thesis
    by (auto simp: toString_def dest: digits_isDigit split: if_splits)
qed

lemma key_inj:
  assumes "toString a @ ''_'' @ x = toString b @ ''_'' @ y"
  shows "a = b \<and> x = y"
proof -
  have tw: "takeWhile (\<lambda>c. c \<noteq> CHR ''_'') (toString n @ ''_'' @ z) = toString n" for n z
    using toString_no_underscore [of _ n] by (simp add: takeWhile_append2)
  from assms have "toString a = toString b"
    using tw [of a x] tw [of b y] by simp
  then have "a = b" by (rule toString_inj)
  with assms show ?thesis by simp
qed

lemma getCacheKey_inj: "getCacheKey a x = getCacheKey b y \<Longrightarrow> a = b \<and> x = y"
  unfolding getCacheKey_def by (rule key_inj)

lemma own_key_neq:
  "a \<noteq> b \<Longrightarrow> toString a @ ''_'' @ x \<noteq> toString b @ ''_'' @ y"
  using key_inj by blast

section \<open>The rate engine\<close>

text \<open>
  C6. For a key \<^verbatim>\<open>`${routerId}_${interfaceName}`\<close> that the rate tracker does not hold
  yet, \<^verbatim>\<open>calculateRates\<close> returns \<^verbatim>\<open>{rxRate: 0, txRate: 0}\<close> whatever the counters
  are, and stores the current counters and the current time as the sample of that key.
  This holds for the pooled server and for \<^verbatim>\<open>backend/server.js\<close>.
\<close>

theorem calculateRates_first_sample:
  assumes "trafficHistory (toString routerId @ ''_'' @ interfaceName) = None"
  shows "calculateRates trafficHistory currentTime routerId interfaceName currentRx currentTx =
           (Some \<lparr>rxRate = 0, txRate = 0\<rparr>,
            trafficHistory(toString routerId @ ''_'' @ interfaceName \<mapsto>
              \<lparr>lastRx = currentRx, lastTx = currentTx, lastTime = currentTime\<rparr>))
       \<and> calculateRates_server trafficHistory currentTime routerId interfaceName currentRx currentTx =
           (\<lparr>rxRate = 0, txRate = 0\<rparr>,
            trafficHistory(toString routerId @ ''_'' @ interfaceName \<mapsto>
              \<lparr>lastRx = currentRx, lastTx = currentTx, lastTime = currentTime\<rparr>))"
  using assms by (simp add: calculateRates_def calculateRates_server_def)

theorem calculateRates_first_sample_witness:
  "(Map.empty :: trafficHistory) (toString 1 @ ''_'' @ ''ether1'') = None
   \<and> calculateRates Map.empty 1700000000000 1 ''ether1'' 123456789 987654321 =
       (Some \<lparr>rxRate = 0, txRate = 0\<rparr>,
        [''1_ether1'' \<mapsto> \<lparr>lastRx = 123456789, lastTx = 987654321, lastTime = 1700000000000\<rparr>])
   \<and> calculateRates_server Map.empty 1700000000000 1 ''ether1'' 123456789 987654321 =
       (\<lparr>rxRate = 0, txRate = 0\<rparr>,
        [''1_ether1'' \<mapsto> \<lparr>lastRx = 123456789, lastTx = 987654321, lastTime = 1700000000000\<rparr>])"
  using calculateRates_first_sample [of Map.empty 1 "''ether1''" 1700000000000 123456789 987654321]
  by (simp add: toString_1)



text \<open>
  The quotients are doubles: 17 bytes read 2176 milliseconds after a stored counter of
  5000 give 136 / 2.176, which is below 62.5 as a double, and the rate is 62.
\<close>

lemma calculateRates_rounds_as_double:
  "fst (calculateRates [''1_ether1'' \<mapsto> \<lparr>lastRx = 5000, lastTx = 0, lastTime = 0\<rparr>]
          2176 1 ''ether1'' 17 0) = Some \<lparr>rxRate = 62, txRate = 0\<rparr>
   \<and> fst (calculateRates_server [''1_ether1'' \<mapsto> \<lparr>lastRx = 5000, lastTx = 0, lastTime = 0\<rparr>]
          2176 1 ''ether1'' 17 0) = \<lparr>rxRate = 62, txRate = 0\<rparr>"
proof -
  have rate: "Math_round (fl (136 / fl (2176 / 1000))) = 62"
    by (simp add: fl_def round53_def roundEven_def expo_def pow2_def bits.simps Math_round_def Let_def)
  have zero: "Math_round 0 = 0"
    by (simp add: Math_round_def)
  from fl_seconds_ge_2000 [of 2176] have seconds: "2 \<le> fl (2176 / 1000)" by simp
  hence "3 / 2 \<le> fl (2176 / 1000)" "fl (2176 / 1000) \<noteq> 0" by simp_all
  with rate zero seconds show ?thesis
    by (simp add: calculateRates_def calculateRates_server_def toString_1 js_div_def Let_def)
qed

text \<open>
  C8, as stated, says that a call that comes too soon returns a rate derived from a
  previously stored delta. No delta is stored: from the same stored sample and the
  same elapsed time, the pooled server returns 8000 for a current counter of 2000 and
  16000 for 3000, and \<^verbatim>\<open>backend/server.js\<close> returns zero.
\<close>

theorem calculateRates_too_soon_counterexample:
  "fst (calculateRates [''1_ether1'' \<mapsto> \<lparr>lastRx = 1000, lastTx = 0, lastTime = 0\<rparr>]
          1000 1 ''ether1'' 2000 0) = Some \<lparr>rxRate = 8000, txRate = 0\<rparr>
   \<and> fst (calculateRates [''1_ether1'' \<mapsto> \<lparr>lastRx = 1000, lastTx = 0, lastTime = 0\<rparr>]
          1000 1 ''ether1'' 3000 0) = Some \<lparr>rxRate = 16000, txRate = 0\<rparr>
   \<and> fst (calculateRates_server [''1_ether1'' \<mapsto> \<lparr>lastRx = 1000, lastTx = 0, lastTime = 0\<rparr>]
          1000 1 ''ether1'' 2000 0) = \<lparr>rxRate = 0, txRate = 0\<rparr>"
  by (simp add: calculateRates_def calculateRates_server_def toString_1 js_div_def Math_round_def)

text \<open>
  C8, amended. When a sample is stored and the elapsed time is below the minimum
  interval, the stored sample is left as it is and no new sample is committed. The
  pooled server returns, for each direction, \<^verbatim>\<open>Math.round(delta * 8 / seconds)\<close>,
  where \<open>delta\<close> is the current counter minus the stored one (the current counter
  itself when it is below the stored one) and \<open>seconds\<close> is the elapsed time, or 1
  when no time has elapsed; \<^verbatim>\<open>backend/server.js\<close> returns zero for both directions.
  For the pooled server the elapsed time is taken not to be negative.
\<close>

theorem calculateRates_too_soon:
  assumes "trafficHistory (toString routerId @ ''_'' @ interfaceName) = Some history"
  shows "(0 \<le> currentTime - lastTime history \<and> currentTime - lastTime history < 1500 \<longrightarrow>
            calculateRates trafficHistory currentTime routerId interfaceName currentRx currentTx =
              (Some \<lparr>rxRate = Math_round (fl
                         (of_int ((if currentRx \<ge> lastRx history then currentRx - lastRx history else currentRx) * 8)
                           / (if currentTime = lastTime history then 1
                              else fl (of_int (currentTime - lastTime history) / 1000)))),
                     txRate = Math_round (fl
                         (of_int ((if currentTx \<ge> lastTx history then currentTx - lastTx history else currentTx) * 8)
                           / (if currentTime = lastTime history then 1
                              else fl (of_int (currentTime - lastTime history) / 1000))))\<rparr>,
               trafficHistory))
       \<and> (currentTime - lastTime history < 2000 \<longrightarrow>
            calculateRates_server trafficHistory currentTime routerId interfaceName currentRx currentTx =
              (\<lparr>rxRate = 0, txRate = 0\<rparr>, trafficHistory))"
proof -
  let ?t = "fl (of_int (currentTime - lastTime history) / 1000)"
  have z: "(?t = 0) = (currentTime = lastTime history)"
    using fl_seconds_zero_iff [of "currentTime - lastTime history"] by simp
  show ?thesis
  proof (intro conjI impI)
    assume h: "0 \<le> currentTime - lastTime history \<and> currentTime - lastTime history < 1500"
    hence a: "\<not> 3 / 2 \<le> ?t" using fl_seconds_less_1500 [of "currentTime - lastTime history"] by simp
    show "calculateRates trafficHistory currentTime routerId interfaceName currentRx currentTx =
              (Some \<lparr>rxRate = Math_round (fl
                         (of_int ((if currentRx \<ge> lastRx history then currentRx - lastRx history else currentRx) * 8)
                           / (if currentTime = lastTime history then 1 else ?t))),
                     txRate = Math_round (fl
                         (of_int ((if currentTx \<ge> lastTx history then currentTx - lastTx history else currentTx) * 8)
                           / (if currentTime = lastTime history then 1 else ?t)))\<rparr>,
               trafficHistory)"
      using assms a z
      by (simp add: calculateRates_def js_div_def Let_def del: of_int_mult of_int_diff)
  next
    assume h: "currentTime - lastTime history < 2000"
    hence b: "\<not> 2 \<le> ?t" using fl_seconds_less_2000 [of "currentTime - lastTime history"] by simp
    show "calculateRates_server trafficHistory currentTime routerId interfaceName currentRx currentTx =
              (\<lparr>rxRate = 0, txRate = 0\<rparr>, trafficHistory)"
      using assms b by (simp add: calculateRates_server_def Let_def)
  qed
qed

theorem calculateRates_too_soon_witness:
  "[''1_ether1'' \<mapsto> \<lparr>lastRx = 1000, lastTx = 500, lastTime = 0\<rparr>] (toString 1 @ ''_'' @ ''ether1'')
      = Some \<lparr>lastRx = 1000, lastTx = 500, lastTime = 0\<rparr>
   \<and> calculateRates [''1_ether1'' \<mapsto> \<lparr>lastRx = 1000, lastTx = 500, lastTime = 0\<rparr>]
        500 1 ''ether1'' 2000 100 =
       (Some \<lparr>rxRate = 16000, txRate = 1600\<rparr>,
        [''1_ether1'' \<mapsto> \<lparr>lastRx = 1000, lastTx = 500, lastTime = 0\<rparr>])
   \<and> calculateRates_server [''1_ether1'' \<mapsto> \<lparr>lastRx = 1000, lastTx = 500, lastTime = 0\<rparr>]
        500 1 ''ether1'' 2000 100 =
       (\<lparr>rxRate = 0, txRate = 0\<rparr>,
        [''1_ether1'' \<mapsto> \<lparr>lastRx = 1000, lastTx = 500, lastTime = 0\<rparr>])"
  using calculateRates_too_soon
    [of "[''1_ether1'' \<mapsto> \<lparr>lastRx = 1000, lastTx = 500, lastTime = 0\<rparr>]" 1 "''ether1''"
        "\<lparr>lastRx = 1000, lastTx = 500, lastTime = 0\<rparr>" 500 2000 100]
  by (simp add: toString_1 Math_round_def fl_half)

text \<open>
  C10. \<^verbatim>\<open>calculateRates\<close> never divides by zero: on every input both rates are
  finite integers (the result is never \<open>None\<close>), and a call at the very time of the
  stored sample divides by one second, so that it returns the counter deltas times 8.
\<close>

theorem calculateRates_finite:
  "(\<exists>r. fst (calculateRates trafficHistory currentTime routerId interfaceName currentRx currentTx) = Some r)
   \<and> (\<forall>history. trafficHistory (toString routerId @ ''_'' @ interfaceName) = Some history
          \<and> lastTime history = currentTime \<longrightarrow>
        fst (calculateRates trafficHistory currentTime routerId interfaceName currentRx currentTx) =
          Some \<lparr>rxRate = (if currentRx \<ge> lastRx history then currentRx - lastRx history else currentRx) * 8,
                txRate = (if currentTx \<ge> lastTx history then currentTx - lastTx history else currentTx) * 8\<rparr>)"
proof (intro conjI allI impI)
  show "\<exists>r. fst (calculateRates trafficHistory currentTime routerId interfaceName currentRx currentTx) = Some r"
    by (auto simp: calculateRates_def js_div_def Let_def split: option.splits)
next
  fix history
  assume h: "trafficHistory (toString routerId @ ''_'' @ interfaceName) = Some history
               \<and> lastTime history = currentTime"
  have z: "fl (of_int (currentTime - currentTime) / 1000) = 0"
    by (simp add: fl_zero_iff)
  have r: "Math_round (fl (of_int n / 1)) = n" for n
    by (simp add: Math_round_of_int)
  show "fst (calculateRates trafficHistory currentTime routerId interfaceName currentRx currentTx) =
          Some \<lparr>rxRate = (if currentRx \<ge> lastRx history then currentRx - lastRx history else currentRx) * 8,
                txRate = (if currentTx \<ge> lastTx history then currentTx - lastTx history else currentTx) * 8\<rparr>"
    using h z by (simp add: calculateRates_def js_div_def Let_def r del: of_int_mult of_int_diff div_by_1)
qed

theorem calculateRates_finite_witness:
  "[''1_ether1'' \<mapsto> \<lparr>lastRx = 1000, lastTx = 500, lastTime = 42\<rparr>] (toString 1 @ ''_'' @ ''ether1'')
      = Some \<lparr>lastRx = 1000, lastTx = 500, lastTime = 42\<rparr>
   \<and> lastTime \<lparr>lastRx = 1000, lastTx = 500, lastTime = 42\<rparr> = 42
   \<and> fst (calculateRates [''1_ether1'' \<mapsto> \<lparr>lastRx = 1000, lastTx = 500, lastTime = 42\<rparr>]
        42 1 ''ether1'' 1300 100) = Some \<lparr>rxRate = 2400, txRate = 800\<rparr>"
  using calculateRates_finite
    [of "[''1_ether1'' \<mapsto> \<lparr>lastRx = 1000, lastTx = 500, lastTime = 42\<rparr>]" 42 1 "''ether1''" 1300 100]
  by (simp add: toString_1)

section \<open>The connection pool\<close>

text \<open>
  C3. When the pool holds a session for the device and \<^verbatim>\<open>now - lastUsed\<close> is strictly
  below 120000 milliseconds, \<^verbatim>\<open>getConnection\<close> returns the very handle of the pool
  entry, sets \<^verbatim>\<open>lastUsed\<close> to now, adds one to \<^verbatim>\<open>useCount\<close> and makes no adapter
  call. Otherwise a stale entry is closed and removed first (the outcome of the close
  changes neither the result nor the pool), then a connect is attempted: on success
  the new handle is pooled with \<^verbatim>\<open>useCount\<close> 1, on failure the result is
  \<^verbatim>\<open>null\<close> and the stale entry is gone.
\<close>

theorem getConnection_reuse:
  "(\<forall>poolEntry. pools this (toString (id' config) @ ''_'' @ ip config) = Some poolEntry
        \<and> at_request io - lastUsed poolEntry < 120000 \<longrightarrow>
      getConnection io this config =
        (Some (connection poolEntry),
         this\<lparr>pools := (pools this)(toString (id' config) @ ''_'' @ ip config \<mapsto>
                  poolEntry\<lparr>lastUsed := at_request io, useCount := useCount poolEntry + 1\<rparr>)\<rparr>,
         []))
   \<and> (\<forall>poolEntry. pools this (toString (id' config) @ ''_'' @ ip config) = Some poolEntry
        \<and> \<not> at_request io - lastUsed poolEntry < 120000 \<longrightarrow>
      getConnection io this config =
        (if connect_ok io
         then (Some (fresh io),
               this\<lparr>pools := (pools this)(toString (id' config) @ ''_'' @ ip config \<mapsto>
                  \<lparr>connection = fresh io, lastUsed = at_connected io, useCount = 1, config' = config\<rparr>)\<rparr>,
               [Close (connection poolEntry) (close_ok io),
                Connect (fresh io) (ip config) (username config) (password config)
                  (case port config of None \<Rightarrow> 8728 | Some p \<Rightarrow> if p = 0 then 8728 else p)])
         else (None,
               this\<lparr>pools := (pools this)(toString (id' config) @ ''_'' @ ip config := None)\<rparr>,
               [Close (connection poolEntry) (close_ok io),
                Connect (fresh io) (ip config) (username config) (password config)
                  (case port config of None \<Rightarrow> 8728 | Some p \<Rightarrow> if p = 0 then 8728 else p)])))
   \<and> (pools this (toString (id' config) @ ''_'' @ ip config) = None \<longrightarrow>
      getConnection io this config =
        (if connect_ok io
         then (Some (fresh io),
               this\<lparr>pools := (pools this)(toString (id' config) @ ''_'' @ ip config \<mapsto>
                  \<lparr>connection = fresh io, lastUsed = at_connected io, useCount = 1, config' = config\<rparr>)\<rparr>,
               [Connect (fresh io) (ip config) (username config) (password config)
                  (case port config of None \<Rightarrow> 8728 | Some p \<Rightarrow> if p = 0 then 8728 else p)])
         else (None, this,
               [Connect (fresh io) (ip config) (username config) (password config)
                  (case port config of None \<Rightarrow> 8728 | Some p \<Rightarrow> if p = 0 then 8728 else p)])))"
  by (simp add: getConnection_def Let_def)

theorem getConnection_reuse_witness:
  "pools warmPool (toString (id' router1) @ ''_'' @ ip router1) =
     Some \<lparr>connection = 7, lastUsed = 1000, useCount = 3, config' = router1\<rparr>
   \<and> getConnection (answering\<lparr>at_request := 60000\<rparr>) warmPool router1 =
       (Some 7,
        warmPool\<lparr>pools := [''1_10.0.0.1'' \<mapsto>
          \<lparr>connection = 7, lastUsed = 60000, useCount = 4, config' = router1\<rparr>]\<rparr>,
        [])
   \<and> getConnection (answering\<lparr>at_request := 200000, at_connected := 200050\<rparr>) warmPool router1 =
       (Some 8,
        warmPool\<lparr>pools := [''1_10.0.0.1'' \<mapsto>
          \<lparr>connection = 8, lastUsed = 200050, useCount = 1, config' = router1\<rparr>]\<rparr>,
        [Close 7 False, Connect 8 ''10.0.0.1'' ''admin'' ''secret'' 8728])
   \<and> getConnection (unreachable\<lparr>at_request := 200000\<rparr>) warmPool router1 =
       (None, warmPool\<lparr>pools := Map.empty\<rparr>,
        [Close 7 False, Connect 8 ''10.0.0.1'' ''admin'' ''secret'' 8728])"
  using getConnection_reuse [of warmPool router1 "answering\<lparr>at_request := 60000\<rparr>"]
        getConnection_reuse [of warmPool router1 "answering\<lparr>at_request := 200000, at_connected := 200050\<rparr>"]
        getConnection_reuse [of warmPool router1 "unreachable\<lparr>at_request := 200000\<rparr>"]
  by (simp add: toString_1)

section \<open>The response cache\<close>

lemma orDefault_cacheTimeout_bound: "orDefault (cacheTimeout endpoint) = Number n \<Longrightarrow> n \<le> 10000"
  by (auto simp: orDefault_def cacheTimeout_def cacheTimeouts_def split: if_splits)

lemma orDefault_cacheTimeout_own:
  "endpoint \<notin> set Object_prototype \<Longrightarrow>
   orDefault (cacheTimeout endpoint) =
     Number (if endpoint = ''overview'' then 3000 else if endpoint = ''bandwidth'' then 2000
             else if endpoint = ''queues'' then 10000 else if endpoint = ''interfaces'' then 5000
             else if endpoint = ''resources'' then 3000 else 5000)"
  by (simp add: orDefault_def cacheTimeout_def cacheTimeouts_def)

lemma getFromCacheWith_cacheTimeouts:
  "getFromCacheWith cacheTimeouts this now routerId endpoint = getFromCache this now routerId endpoint"
  by (simp add: getFromCacheWith_def getFromCache_def timeoutIn_def cacheTimeout_def)

text \<open>
  C5, as stated, says that \<^verbatim>\<open>getFromCache\<close> never returns an entry older than 30
  seconds, even for a category whose timeout is larger. \<^verbatim>\<open>getFromCache\<close> compares
  the age with the timeout of the category and with nothing else: on a pool whose
  table gives \<^verbatim>\<open>queues\<close> 60 seconds, an entry stored at 1000 is returned at 32000,
  at the age of 31 seconds.
\<close>

theorem getFromCache_ceiling_counterexample:
  "getFromCacheWith [(''queues'', 60000)]
     (emptyPool\<lparr>cacheData := [''1_queues'' \<mapsto> \<lparr>data = (5 :: nat), timestamp = 1000\<rparr>]\<rparr>)
     32000 1 ''queues'' = Some 5"
  by (simp add: getFromCacheWith_def timeoutIn_def getCacheKey_def toString_1 orDefault_def jsLess_def)

text \<open>
  C5, amended. \<^verbatim>\<open>getFromCache\<close> returns an entry exactly while its age is below
  the timeout of its category, whatever that timeout is; it applies no limit of 30
  seconds. With the table the pool is constructed with, every timeout is at most 10
  seconds, so an entry whose age is 10 seconds or more, and so every entry older
  than 30 seconds, is a miss for every category. The limit of 30 seconds is applied
  by \<^verbatim>\<open>cleanup\<close>: after it has run, the cache holds no entry older than 30
  seconds.
\<close>

theorem getFromCache_ceiling:
  "(\<forall>ttl cached. map_of timeouts endpoint = Some ttl \<and> ttl \<noteq> 0
        \<and> cacheData this (getCacheKey routerId endpoint) = Some cached \<longrightarrow>
      getFromCacheWith timeouts this now routerId endpoint =
        (if now - timestamp cached < ttl then Some (data cached) else None))
   \<and> getFromCacheWith cacheTimeouts this now routerId endpoint =
        getFromCache this now routerId endpoint
   \<and> (\<forall>cached. cacheData this (getCacheKey routerId endpoint) = Some cached
        \<and> 10000 \<le> now - timestamp cached \<longrightarrow>
      getFromCache this now routerId endpoint = None)
   \<and> (\<forall>key cached. cacheData (cleanup this now) key = Some cached \<longrightarrow>
        cacheData this key = Some cached \<and> now - timestamp cached \<le> 30000)"
proof -
  have only_ttl: "getFromCacheWith timeouts this now routerId endpoint =
        (if now - timestamp cached < ttl then Some (data cached) else None)"
    if "map_of timeouts endpoint = Some ttl \<and> ttl \<noteq> 0
        \<and> cacheData this (getCacheKey routerId endpoint) = Some cached"
    for ttl cached
    using that by (simp add: getFromCacheWith_def timeoutIn_def orDefault_def jsLess_def)
  have get: "getFromCache this now routerId endpoint = None"
    if h: "cacheData this (getCacheKey routerId endpoint) = Some cached \<and> 10000 \<le> now - timestamp cached"
    for cached
  proof (cases "orDefault (cacheTimeout endpoint)")
    case (Number n)
    then have "n \<le> 10000" by (rule orDefault_cacheTimeout_bound)
    with h Number show ?thesis by (simp add: getFromCache_def jsLess_def)
  next
    case Inherited
    with h show ?thesis by (simp add: getFromCache_def jsLess_def)
  qed
  have sweep: "cacheData this key = Some cached \<and> now - timestamp cached \<le> 30000"
    if "cacheData (cleanup this now) key = Some cached" for key cached
    using that by (auto simp: cleanup_def split: option.splits if_splits)
  from only_ttl get sweep getFromCacheWith_cacheTimeouts [of this now routerId endpoint]
  show ?thesis by blast
qed

text \<open>
  An entry of the category \<^verbatim>\<open>queues\<close> at the age of 31 seconds: returned under a
  timeout of 60 seconds, a miss under the table of the constructor, and removed by
  \<^verbatim>\<open>cleanup\<close>.
\<close>

theorem getFromCache_ceiling_witness:
  "map_of [(''queues'', 60000 :: int)] ''queues'' = Some 60000
   \<and> (60000 :: int) \<noteq> 0
   \<and> cacheData (emptyPool\<lparr>cacheData := [''1_queues'' \<mapsto> \<lparr>data = (5 :: nat), timestamp = 1000\<rparr>]\<rparr>)
      (getCacheKey 1 ''queues'') = Some \<lparr>data = 5, timestamp = 1000\<rparr>
   \<and> (10000 :: int) \<le> 32000 - timestamp \<lparr>data = (5 :: nat), timestamp = 1000\<rparr>
   \<and> getFromCacheWith [(''queues'', 60000)]
        (emptyPool\<lparr>cacheData := [''1_queues'' \<mapsto> \<lparr>data = (5 :: nat), timestamp = 1000\<rparr>]\<rparr>)
        32000 1 ''queues'' = Some 5
   \<and> getFromCacheWith cacheTimeouts
        (emptyPool\<lparr>cacheData := [''1_queues'' \<mapsto> \<lparr>data = (5 :: nat), timestamp = 1000\<rparr>]\<rparr>)
        32000 1 ''queues'' = None
   \<and> getFromCache (emptyPool\<lparr>cacheData := [''1_queues'' \<mapsto> \<lparr>data = (5 :: nat), timestamp = 1000\<rparr>]\<rparr>)
        32000 1 ''queues'' = None
   \<and> cacheData (cleanup (emptyPool\<lparr>cacheData := [''1_queues'' \<mapsto> \<lparr>data = (5 :: nat), timestamp = 1000\<rparr>]\<rparr>)
                   32000) ''1_queues'' = None"
  using getFromCache_ceiling
    [of "[(''queues'', 60000)]" "''queues''"
        "emptyPool\<lparr>cacheData := [''1_queues'' \<mapsto> \<lparr>data = (5 :: nat), timestamp = 1000\<rparr>]\<rparr>"
        1 32000]
  by (simp add: getCacheKey_def toString_1 cleanup_def)

text \<open>
  C4. The category \<^verbatim>\<open>constructor\<close> is not listed in the table, so the claim gives
  it five seconds. The lookup \<^verbatim>\<open>this.cacheTimeouts[endpoint]\<close> finds the function
  inherited from \<^verbatim>\<open>Object.prototype\<close>; it is truthy, so the default of 5000 that
  \<^verbatim>\<open>|| 5000\<close> provides for an unlisted category is not taken, and no age is below
  it: a value stored under that category is a miss at once, at the very time it was
  stored. An unlisted category whose name is not inherited, such as \<^verbatim>\<open>status\<close>,
  gets the five seconds.
\<close>

theorem setCache_getFromCache_inherited_category:
  "getFromCache (setCache emptyPool 1000 1 ''constructor'' (7 :: nat)) 1000 1 ''constructor'' = None
   \<and> getFromCache (setCache emptyPool 1000 1 ''status'' (7 :: nat)) 1000 1 ''status'' = Some 7
   \<and> getFromCache (setCache emptyPool 1000 1 ''status'' (7 :: nat)) 5999 1 ''status'' = Some 7
   \<and> getFromCache (setCache emptyPool 1000 1 ''status'' (7 :: nat)) 6000 1 ''status'' = None"
  by (simp add: getFromCache_def setCache_def getCacheKey_def cacheTimeout_def cacheTimeouts_def Object_prototype_def
      orDefault_def jsLess_def)

text \<open>
  For a device id, a value and a category that is not the name of a property
  inherited from \<^verbatim>\<open>Object.prototype\<close>, \<^verbatim>\<open>setCache\<close> followed by
  \<^verbatim>\<open>getFromCache\<close> returns exactly the stored value while the elapsed time is
  strictly below the timeout of the category (\<^verbatim>\<open>overview\<close> 3000,
  \<^verbatim>\<open>bandwidth\<close> 2000, \<^verbatim>\<open>queues\<close> 10000, \<^verbatim>\<open>interfaces\<close> 5000,
  \<^verbatim>\<open>resources\<close> 3000, any other 5000 milliseconds) and a miss from then on; a
  second \<^verbatim>\<open>setCache\<close> replaces the entry of the first; and the entry and the lookup
  of every other pair of device id and category are unchanged. Device ids are
  integers here.
\<close>

lemma setCache_getFromCache_own_category:
  assumes "endpoint \<notin> set Object_prototype"
  shows "getFromCache (setCache this stored routerId endpoint v) now routerId endpoint =
           (if now - stored <
                 (if endpoint = ''overview'' then 3000 else if endpoint = ''bandwidth'' then 2000
                  else if endpoint = ''queues'' then 10000 else if endpoint = ''interfaces'' then 5000
                  else if endpoint = ''resources'' then 3000 else 5000)
            then Some v else None)
       \<and> setCache (setCache this earlier routerId endpoint w) stored routerId endpoint v =
           setCache this stored routerId endpoint v
       \<and> ((routerId', endpoint') \<noteq> (routerId, endpoint) \<longrightarrow>
            cacheData (setCache this stored routerId endpoint v) (getCacheKey routerId' endpoint') =
              cacheData this (getCacheKey routerId' endpoint')
            \<and> getFromCache (setCache this stored routerId endpoint v) now routerId' endpoint' =
              getFromCache this now routerId' endpoint')"
proof (intro conjI impI)
  show "getFromCache (setCache this stored routerId endpoint v) now routerId endpoint =
           (if now - stored <
                 (if endpoint = ''overview'' then 3000 else if endpoint = ''bandwidth'' then 2000
                  else if endpoint = ''queues'' then 10000 else if endpoint = ''interfaces'' then 5000
                  else if endpoint = ''resources'' then 3000 else 5000)
            then Some v else None)"
    by (simp add: getFromCache_def setCache_def orDefault_cacheTimeout_own [OF assms] jsLess_def)
  show "setCache (setCache this earlier routerId endpoint w) stored routerId endpoint v =
           setCache this stored routerId endpoint v"
    by (simp add: setCache_def)
next
  assume "(routerId', endpoint') \<noteq> (routerId, endpoint)"
  then have ne: "getCacheKey routerId' endpoint' \<noteq> getCacheKey routerId endpoint"
    using getCacheKey_inj by blast
  then show "cacheData (setCache this stored routerId endpoint v) (getCacheKey routerId' endpoint') =
              cacheData this (getCacheKey routerId' endpoint')"
    by (simp add: setCache_def)
  then show "getFromCache (setCache this stored routerId endpoint v) now routerId' endpoint' =
              getFromCache this now routerId' endpoint'"
    by (simp add: getFromCache_def)
qed

lemma setCache_getFromCache_own_category_example:
  "''queues_light'' \<notin> set Object_prototype
   \<and> getFromCache (setCache emptyPool 1000 1 ''queues_light'' (7 :: nat)) 5999 1 ''queues_light'' = Some 7
   \<and> getFromCache (setCache emptyPool 1000 1 ''queues_light'' (7 :: nat)) 6000 1 ''queues_light'' = None
   \<and> (1 :: int, ''queues'') \<noteq> (1, ''queues_light'')
   \<and> getFromCache (setCache emptyPool 1000 1 ''queues_light'' (7 :: nat)) 5999 1 ''queues'' =
       getFromCache emptyPool 5999 1 ''queues''"
  using setCache_getFromCache_own_category
    [of "''queues_light''" emptyPool 1000 1 "7 :: nat" 5999 _ _ 1 "''queues''"]
        setCache_getFromCache_own_category
    [of "''queues_light''" emptyPool 1000 1 "7 :: nat" 6000 _ _ 1 "''queues''"]
  by (simp add: Object_prototype_def)

section \<open>The fleet overview\<close>

text \<open>
  Each step of the handler reads and writes only the pool entry and the cache entries
  of the device it handles.
\<close>

lemma getFromCache_cong:
  "cacheData this (getCacheKey routerId endpoint) = cacheData this' (getCacheKey routerId endpoint) \<Longrightarrow>
   getFromCache this now routerId endpoint = getFromCache this' now routerId endpoint"
  by (simp add: getFromCache_def)

lemma getConnection_frame:
  assumes "getConnection io this config = (c, this1, calls)"
  shows "cacheData this1 = cacheData this"
    and "k \<noteq> toString (id' config) @ ''_'' @ ip config \<Longrightarrow> pools this1 k = pools this k"
  using assms
  by (auto simp: getConnection_def Let_def split: option.splits if_splits)

lemma getConnection_cong:
  assumes "pools this (toString (id' config) @ ''_'' @ ip config) =
           pools this' (toString (id' config) @ ''_'' @ ip config)"
  shows "fst (getConnection io this config) = fst (getConnection io this' config)"
  using assms
  by (auto simp: getConnection_def Let_def split: option.splits if_splits)

lemma getConnection_None:
  assumes "\<not> connect_ok io"
    and "\<And>poolEntry. pools this (toString (id' config) @ ''_'' @ ip config) = Some poolEntry \<Longrightarrow>
           120000 \<le> at_request io - lastUsed poolEntry"
  shows "fst (getConnection io this config) = None"
proof (cases "pools this (toString (id' config) @ ''_'' @ ip config)")
  case None
  with assms(1) show ?thesis by (simp add: getConnection_def Let_def)
next
  case (Some poolEntry)
  with assms(2) have "\<not> at_request io - lastUsed poolEntry < 120000" by fastforce
  with Some assms(1) show ?thesis by (simp add: getConnection_def Let_def)
qed

lemma getRouterResources_frame:
  assumes "getRouterResources io this conn config = (r, this1)"
  shows "pools this1 = pools this"
    and "k \<noteq> getCacheKey (id' config) ''resources'' \<Longrightarrow> cacheData this1 k = cacheData this k"
  using assms
  by (auto simp: getRouterResources_def setCache_def Let_def split: option.splits list.splits)

lemma getRouterResources_cong:
  assumes "cacheData this (getCacheKey (id' config) ''resources'') =
           cacheData this' (getCacheKey (id' config) ''resources'')"
  shows "fst (getRouterResources io this conn config) = fst (getRouterResources io this' conn config)"
  using assms getFromCache_cong [OF assms, of "at_connected io"]
  by (auto simp: getRouterResources_def setCache_def Let_def split: option.splits list.splits)

lemma getQueueStatsLight_frame:
  assumes "getQueueStatsLight io this conn config = (r, this1)"
  shows "pools this1 = pools this"
    and "k \<noteq> getCacheKey (id' config) ''queues_light'' \<Longrightarrow> cacheData this1 k = cacheData this k"
  using assms
  by (auto simp: getQueueStatsLight_def setCache_def Let_def split: option.splits)

lemma getQueueStatsLight_cong:
  assumes "cacheData this (getCacheKey (id' config) ''queues_light'') =
           cacheData this' (getCacheKey (id' config) ''queues_light'')"
  shows "fst (getQueueStatsLight io this conn config) = fst (getQueueStatsLight io this' conn config)"
  using assms getFromCache_cong [OF assms, of "at_connected io"]
  by (auto simp: getQueueStatsLight_def setCache_def Let_def split: option.splits)

lemma cache_keys_differ:
  "getCacheKey a ''queues_light'' \<noteq> getCacheKey a ''resources''"
  by (simp add: getCacheKey_def)

text \<open>The entry of a device depends only on the pool entry and the cache entries of that device.\<close>

lemma overview_cong:
  assumes pool: "pools this (toString (id' config) @ ''_'' @ ip config) =
                 pools this' (toString (id' config) @ ''_'' @ ip config)"
    and cache: "\<And>endpoint. cacheData this (getCacheKey (id' config) endpoint) =
                              cacheData this' (getCacheKey (id' config) endpoint)"
  shows "fst (overview io this config) = fst (overview io this' config)"
proof (cases "getFromCache this (at_request io) (id' config) ''overview''")
  case (Some cached)
  moreover from Some have "getFromCache this' (at_request io) (id' config) ''overview'' = Some cached"
    using getFromCache_cong [OF cache] by metis
  ultimately show ?thesis by (simp add: overview_def)
next
  case None
  then have None': "getFromCache this' (at_request io) (id' config) ''overview'' = None"
    using getFromCache_cong [OF cache] by metis
  obtain c this1 calls where g: "getConnection io this config = (c, this1, calls)"
    by (cases "getConnection io this config") auto
  obtain c' this1' calls' where g': "getConnection io this' config = (c', this1', calls')"
    by (cases "getConnection io this' config") auto
  have cc: "c' = c" using getConnection_cong [OF pool, of io] g g' by simp
  show ?thesis
  proof (cases c)
    case None
    with cc g g' \<open>getFromCache this (at_request io) (id' config) ''overview'' = None\<close> None'
    show ?thesis by (simp add: overview_def)
  next
    case (Some conn)
    have c1: "cacheData this1 = cacheData this" and c1': "cacheData this1' = cacheData this'"
      using getConnection_frame(1) [OF g] getConnection_frame(1) [OF g'] by simp_all
    obtain resources this2 where r: "getRouterResources io this1 conn config = (resources, this2)"
      by (cases "getRouterResources io this1 conn config") auto
    obtain resources' this2' where r': "getRouterResources io this1' conn config = (resources', this2')"
      by (cases "getRouterResources io this1' conn config") auto
    have "cacheData this1 (getCacheKey (id' config) ''resources'') =
          cacheData this1' (getCacheKey (id' config) ''resources'')"
      using c1 c1' cache by simp
    from getRouterResources_cong [OF this, of io conn] r r'
    have rr: "resources' = resources" by simp
    have "cacheData this2 (getCacheKey (id' config) ''queues_light'') =
          cacheData this2' (getCacheKey (id' config) ''queues_light'')"
      using getRouterResources_frame(2) [OF r, of "getCacheKey (id' config) ''queues_light''"]
            getRouterResources_frame(2) [OF r', of "getCacheKey (id' config) ''queues_light''"]
            cache_keys_differ [of "id' config"] c1 c1' cache
      by simp
    from getQueueStatsLight_cong [OF this, of io conn]
    have qq: "fst (getQueueStatsLight io this2 conn config) = fst (getQueueStatsLight io this2' conn config)" .
    obtain queues this3 where q: "getQueueStatsLight io this2 conn config = (queues, this3)"
      by (cases "getQueueStatsLight io this2 conn config") auto
    obtain queues' this3' where q': "getQueueStatsLight io this2' conn config = (queues', this3')"
      by (cases "getQueueStatsLight io this2' conn config") auto
    from qq q q' have "queues' = queues" by simp
    then show ?thesis
      using \<open>getFromCache this (at_request io) (id' config) ''overview'' = None\<close> None' g g' cc Some r r' rr q q'
      by (simp add: overview_def Let_def)
  qed
qed

text \<open>The handler of a device leaves the entries of every other device as they are.\<close>

lemma overview_frame:
  assumes "overview io this config = (result, this', calls)"
    and "\<And>x. k \<noteq> toString (id' config) @ ''_'' @ x"
  shows "pools this' k = pools this k \<and> cacheData this' k = cacheData this k"
proof (cases "getFromCache this (at_request io) (id' config) ''overview''")
  case (Some cached)
  with assms(1) show ?thesis by (simp add: overview_def)
next
  case None
  have kc: "k \<noteq> getCacheKey (id' config) endpoint" for endpoint
    using assms(2) by (simp add: getCacheKey_def)
  obtain c this1 calls1 where g: "getConnection io this config = (c, this1, calls1)"
    by (cases "getConnection io this config") auto
  have p1: "pools this1 k = pools this k" and c1: "cacheData this1 = cacheData this"
    using getConnection_frame [OF g] assms(2) by simp_all
  show ?thesis
  proof (cases c)
    case None
    with \<open>getFromCache this (at_request io) (id' config) ''overview'' = None\<close> g assms(1) p1 c1
    show ?thesis by (auto simp: overview_def)
  next
    case (Some conn)
    obtain resources this2 where r: "getRouterResources io this1 conn config = (resources, this2)"
      by (cases "getRouterResources io this1 conn config") auto
    obtain queues this3 where q: "getQueueStatsLight io this2 conn config = (queues, this3)"
      by (cases "getQueueStatsLight io this2 conn config") auto
    have p3: "pools this3 k = pools this k"
      using getQueueStatsLight_frame(1) [OF q] getRouterResources_frame(1) [OF r] p1 by simp
    have c3: "cacheData this3 k = cacheData this k"
      using getQueueStatsLight_frame(2) [OF q kc] getRouterResources_frame(2) [OF r kc] c1 by simp
    have rel: "pools (releaseConnection this3 now config) k = pools this3 k
               \<and> cacheData (releaseConnection this3 now config) = cacheData this3" for now
      using assms(2) by (auto simp: releaseConnection_def Let_def split: option.splits)
    from assms(1) \<open>getFromCache this (at_request io) (id' config) ''overview'' = None\<close> g Some r q
    have "this' = setCache (releaseConnection this3 (at_merge io) config) (at_merge io) (id' config) ''overview'' result"
      by (auto simp: overview_def Let_def)
    then show ?thesis using rel [of "at_merge io"] p3 c3 kc [of "''overview''"]
      by (simp add: setCache_def)
  qed
qed

lemma overview_offline:
  assumes "getFromCache this (at_request io) (id' config) ''overview'' = None"
    and "fst (getConnection io this config) = None"
  shows "fst (overview io this config) = offline config"
    and "cacheData (fst (snd (overview io this config))) = cacheData this"
  using assms getConnection_frame(1) [of io this config]
  by (auto simp: overview_def split: prod.splits option.splits)

text \<open>
  The function mapped over the devices is its start followed by its continuation.
\<close>

lemma overview_queries:
  "getConnection io this config = (Some conn, this1, calls) \<Longrightarrow>
   getFromCache this (at_request io) (id' config) ''overview'' = None \<Longrightarrow>
   overview io this config =
     (fst (overviewQueries io this1 conn config), snd (overviewQueries io this1 conn config), calls)"
  by (simp add: overview_def overviewQueries_def Let_def split: prod.splits)

lemma overview_split:
  "overview io this config =
     (case overviewStart io this config of (waiting, this1, calls1) \<Rightarrow>
        (case overviewFinish io this1 config waiting of (result, this2, calls2) \<Rightarrow>
           (result, this2, calls1 @ calls2)))"
proof (cases "getFromCache this (at_request io) (id' config) ''overview''")
  case (Some cached)
  then show ?thesis by (simp add: overview_def overviewStart_def overviewFinish_def)
next
  case None
  obtain c this1 calls where g: "getConnection io this config = (c, this1, calls)"
    by (cases "getConnection io this config") auto
  show ?thesis
  proof (cases c)
    case None
    with g \<open>getFromCache this (at_request io) (id' config) ''overview'' = None\<close> show ?thesis
      by (auto simp: overview_def overviewStart_def overviewFinish_def getConnection_def Let_def
          split: option.splits if_splits)
  next
    case (Some conn)
    with g have g': "getConnection io this config = (Some conn, this1, calls)" by simp
    from overview_queries [OF g' \<open>getFromCache this (at_request io) (id' config) ''overview'' = None\<close>]
    show ?thesis
      using g' \<open>getFromCache this (at_request io) (id' config) ''overview'' = None\<close>
      by (auto simp: overviewStart_def overviewFinish_def getConnection_def Let_def
          split: option.splits if_splits prod.splits)
  qed
qed

lemma overviewStart_frame:
  assumes "overviewStart io this config = (waiting, this1, calls)"
  shows "cacheData this1 = cacheData this"
    and "k \<noteq> toString (id' config) @ ''_'' @ ip config \<Longrightarrow> pools this1 k = pools this k"
  using assms
  by (auto simp: overviewStart_def Let_def split: option.splits if_splits)

lemma overviewStart_cong:
  assumes "agree (id' config) this this'"
  shows "fst (overviewStart io this config) = fst (overviewStart io this' config)"
    and "agree (id' config) (fst (snd (overviewStart io this config)))
           (fst (snd (overviewStart io this' config)))"
proof -
  have c: "getFromCache this (at_request io) (id' config) ''overview'' =
           getFromCache this' (at_request io) (id' config) ''overview''"
    using assms by (intro getFromCache_cong) (simp add: getCacheKey_def)
  have p: "pools this (toString (id' config) @ ''_'' @ ip config) =
           pools this' (toString (id' config) @ ''_'' @ ip config)"
    using assms by simp
  show "fst (overviewStart io this config) = fst (overviewStart io this' config)"
    using c p by (auto simp: overviewStart_def Let_def split: option.splits)
  show "agree (id' config) (fst (snd (overviewStart io this config)))
           (fst (snd (overviewStart io this' config)))"
    using c p assms by (auto simp: overviewStart_def Let_def split: option.splits)
qed

lemma releaseConnection_frame:
  "cacheData (releaseConnection this now config) = cacheData this"
  "k \<noteq> toString (id' config) @ ''_'' @ ip config \<Longrightarrow>
     pools (releaseConnection this now config) k = pools this k"
  by (auto simp: releaseConnection_def Let_def split: option.splits)

lemma overviewQueries_frame:
  assumes "overviewQueries io this conn config = (result, this')"
    and "\<And>x. k \<noteq> toString (id' config) @ ''_'' @ x"
  shows "pools this' k = pools this k \<and> cacheData this' k = cacheData this k"
proof -
  have kc: "k \<noteq> getCacheKey (id' config) endpoint" for endpoint
    using assms(2) by (simp add: getCacheKey_def)
  obtain resources this2 where r: "getRouterResources io this conn config = (resources, this2)"
    by (cases "getRouterResources io this conn config") auto
  obtain queues this3 where q: "getQueueStatsLight io this2 conn config = (queues, this3)"
    by (cases "getQueueStatsLight io this2 conn config") auto
  have p3: "pools this3 k = pools this k"
    using getQueueStatsLight_frame(1) [OF q] getRouterResources_frame(1) [OF r] by simp
  have c3: "cacheData this3 k = cacheData this k"
    using getQueueStatsLight_frame(2) [OF q kc] getRouterResources_frame(2) [OF r kc] by simp
  from assms(1) r q
  have "this' = setCache (releaseConnection this3 (at_merge io) config) (at_merge io) (id' config)
                  ''overview'' result"
    by (auto simp: overviewQueries_def Let_def)
  moreover from assms(2) have "k \<noteq> toString (id' config) @ ''_'' @ ip config" by simp
  ultimately show ?thesis
    using releaseConnection_frame(1) [of this3 "at_merge io" config]
          releaseConnection_frame(2) [of k config this3 "at_merge io"] p3 c3 kc [of "''overview''"]
    by (simp add: setCache_def)
qed

lemma overviewQueries_cong:
  assumes cache: "\<And>endpoint. cacheData this (getCacheKey (id' config) endpoint) =
                              cacheData this' (getCacheKey (id' config) endpoint)"
  shows "fst (overviewQueries io this conn config) = fst (overviewQueries io this' conn config)"
proof -
  obtain resources this2 where r: "getRouterResources io this conn config = (resources, this2)"
    by (cases "getRouterResources io this conn config") auto
  obtain resources' this2' where r': "getRouterResources io this' conn config = (resources', this2')"
    by (cases "getRouterResources io this' conn config") auto
  from getRouterResources_cong [OF cache, of io conn] r r'
  have rr: "resources' = resources" by simp
  have "cacheData this2 (getCacheKey (id' config) ''queues_light'') =
        cacheData this2' (getCacheKey (id' config) ''queues_light'')"
    using getRouterResources_frame(2) [OF r, of "getCacheKey (id' config) ''queues_light''"]
          getRouterResources_frame(2) [OF r', of "getCacheKey (id' config) ''queues_light''"]
          cache_keys_differ [of "id' config"] cache
    by simp
  from getQueueStatsLight_cong [OF this, of io conn]
  have qq: "fst (getQueueStatsLight io this2 conn config) = fst (getQueueStatsLight io this2' conn config)" .
  obtain queues this3 where q: "getQueueStatsLight io this2 conn config = (queues, this3)"
    by (cases "getQueueStatsLight io this2 conn config") auto
  obtain queues' this3' where q': "getQueueStatsLight io this2' conn config = (queues', this3')"
    by (cases "getQueueStatsLight io this2' conn config") auto
  from qq q q' have "queues' = queues" by simp
  then show ?thesis using r r' rr q q'
    by (simp add: overviewQueries_def Let_def)
qed

lemma overviewFinish_cong:
  assumes "agree (id' config) this this'"
  shows "fst (overviewFinish io this config waiting) = fst (overviewFinish io this' config waiting)"
proof -
  have cache: "cacheData this (getCacheKey (id' config) endpoint) =
               cacheData this' (getCacheKey (id' config) endpoint)" for endpoint
    using assms by (simp add: getCacheKey_def)
  have q: "fst (overviewQueries io (this\<lparr>pools := f (pools this)\<rparr>) conn config) =
           fst (overviewQueries io (this'\<lparr>pools := g (pools this')\<rparr>) conn config)" for f g conn
    by (rule overviewQueries_cong) (simp add: cache)
  have q0: "fst (overviewQueries io this conn config) = fst (overviewQueries io this' conn config)" for conn
    by (rule overviewQueries_cong) (simp add: cache)
  show ?thesis
  proof (cases waiting)
    case (Cached cached)
    then show ?thesis by (simp add: overviewFinish_def)
  next
    case (Reusing conn)
    then show ?thesis using q0 [of conn] by (simp add: overviewFinish_def Let_def case_prod_beta)
  next
    case (Closing old)
    then show ?thesis
      using q [of "\<lambda>p. p(toString (id' config) @ ''_'' @ ip config \<mapsto>
                \<lparr>connection = fresh io, lastUsed = at_connected io, useCount = 1, config' = config\<rparr>)"
              "fresh io"
              "\<lambda>p. p(toString (id' config) @ ''_'' @ ip config \<mapsto>
                \<lparr>connection = fresh io, lastUsed = at_connected io, useCount = 1, config' = config\<rparr>)"]
      by (simp add: overviewFinish_def Let_def case_prod_beta)
  next
    case (Connecting conn)
    then show ?thesis
      using q [of "\<lambda>p. p(toString (id' config) @ ''_'' @ ip config \<mapsto>
                \<lparr>connection = fresh io, lastUsed = at_connected io, useCount = 1, config' = config\<rparr>)"
              "fresh io"
              "\<lambda>p. p(toString (id' config) @ ''_'' @ ip config \<mapsto>
                \<lparr>connection = fresh io, lastUsed = at_connected io, useCount = 1, config' = config\<rparr>)"]
      by (simp add: overviewFinish_def Let_def case_prod_beta)
  qed
qed

lemma overviewFinish_frame:
  assumes "overviewFinish io this config waiting = (result, this', calls)"
    and "\<And>x. k \<noteq> toString (id' config) @ ''_'' @ x"
  shows "pools this' k = pools this k \<and> cacheData this' k = cacheData this k"
proof -
  have q: "pools (snd (overviewQueries io s conn config)) k = pools s k
           \<and> cacheData (snd (overviewQueries io s conn config)) k = cacheData s k" for s conn
    using overviewQueries_frame [of io s conn config _ _ k] assms(2)
    by (cases "overviewQueries io s conn config") auto
  from assms(2) have pk: "k \<noteq> toString (id' config) @ ''_'' @ ip config" by simp
  show ?thesis
  proof (cases waiting)
    case (Cached cached)
    with assms(1) show ?thesis by (simp add: overviewFinish_def)
  next
    case (Reusing conn)
    with assms(1) show ?thesis using q [of this conn]
      by (auto simp: overviewFinish_def Let_def split: prod.splits)
  next
    case (Closing old)
    with assms(1) pk show ?thesis
      using q [of "this\<lparr>pools := (pools this)(toString (id' config) @ ''_'' @ ip config \<mapsto>
                \<lparr>connection = fresh io, lastUsed = at_connected io, useCount = 1, config' = config\<rparr>)\<rparr>"
              "fresh io"]
      by (auto simp: overviewFinish_def Let_def split: prod.splits if_splits)
  next
    case (Connecting conn)
    with assms(1) pk show ?thesis
      using q [of "this\<lparr>pools := (pools this)(toString (id' config) @ ''_'' @ ip config \<mapsto>
                \<lparr>connection = fresh io, lastUsed = at_connected io, useCount = 1, config' = config\<rparr>)\<rparr>"
              "fresh io"]
      by (auto simp: overviewFinish_def Let_def split: prod.splits if_splits)
  qed
qed

text \<open>Starting and continuing the calls of the other devices leaves the entries of a device.\<close>

lemma startAll_length: "length (fst (startAll this branches)) = length branches"
  by (induction branches arbitrary: this) (auto simp: case_prod_beta)

lemma finishAll_length: "length (fst (finishAll this rest)) = length rest"
  by (induction rest arbitrary: this) (auto simp: case_prod_beta)

lemma startAll_frame:
  assumes "routerId \<notin> id' ` fst ` set branches"
  shows "agree routerId (fst (snd (startAll this branches))) this"
  using assms
proof (induction branches arbitrary: this)
  case Nil
  then show ?case by simp
next
  case (Cons branch branches)
  obtain config io where b: "branch = (config, io)" by (cases branch) auto
  obtain waiting this1 calls1 where s: "overviewStart io this config = (waiting, this1, calls1)"
    by (cases "overviewStart io this config") auto
  from Cons.prems b have ne: "routerId \<noteq> id' config" and rest: "routerId \<notin> id' ` fst ` set branches"
    by auto
  have "agree routerId this1 this"
    using overviewStart_frame [OF s] own_key_neq [OF ne] by simp
  moreover have "agree routerId (fst (snd (startAll this1 branches))) this1"
    by (rule Cons.IH [OF rest])
  ultimately show ?case using b s by (simp add: case_prod_beta)
qed

lemma finishAll_frame:
  assumes "routerId \<notin> id' ` fst ` fst ` set rest"
  shows "agree routerId (fst (snd (finishAll this rest))) this"
  using assms
proof (induction rest arbitrary: this)
  case Nil
  then show ?case by simp
next
  case (Cons entry rest)
  obtain config io waiting where b: "entry = ((config, io), waiting)" by (cases entry) auto
  obtain result this1 calls1 where s: "overviewFinish io this config waiting = (result, this1, calls1)"
    by (cases "overviewFinish io this config waiting") auto
  from Cons.prems b have ne: "routerId \<noteq> id' config"
    and rest: "routerId \<notin> id' ` fst ` fst ` set rest"
    by auto
  have "agree routerId this1 this"
    using overviewFinish_frame [OF s] own_key_neq [OF ne] by simp
  moreover have "agree routerId (fst (snd (finishAll this1 rest))) this1"
    by (rule Cons.IH [OF rest])
  ultimately show ?case using b s by (simp add: case_prod_beta)
qed

lemma startAll_nth:
  assumes "distinct (map (id' \<circ> fst) branches)"
    and "i < length branches"
    and "agree (id' (fst (branches ! i))) this this0"
  shows "fst (startAll this branches) ! i =
           fst (overviewStart (snd (branches ! i)) this0 (fst (branches ! i)))
         \<and> agree (id' (fst (branches ! i))) (fst (snd (startAll this branches)))
             (fst (snd (overviewStart (snd (branches ! i)) this0 (fst (branches ! i)))))"
  using assms
proof (induction branches arbitrary: this i)
  case Nil
  then show ?case by simp
next
  case (Cons branch branches)
  obtain config io where b: "branch = (config, io)" by (cases branch) auto
  obtain waiting this1 calls1 where s: "overviewStart io this config = (waiting, this1, calls1)"
    by (cases "overviewStart io this config") auto
  from Cons.prems(1) b have notin: "id' config \<notin> id' ` fst ` set branches"
    and d: "distinct (map (id' \<circ> fst) branches)"
    by (auto simp: image_image comp_def)
  show ?case
  proof (cases i)
    case 0
    with Cons.prems(3) b have a: "agree (id' config) this this0" by simp
    from overviewStart_cong [OF a, of io] s
    have w: "waiting = fst (overviewStart io this0 config)"
      and a1: "agree (id' config) this1 (fst (snd (overviewStart io this0 config)))"
      by simp_all
    have "agree (id' config) (fst (snd (startAll this1 branches))) this1"
      by (rule startAll_frame [OF notin])
    with a1 have "agree (id' config) (fst (snd (startAll this1 branches)))
                    (fst (snd (overviewStart io this0 config)))"
      by simp
    with 0 b s w show ?thesis by (simp add: case_prod_beta)
  next
    case (Suc j)
    with Cons.prems(2) have j: "j < length branches" by simp
    hence "branches ! j \<in> set branches" by (rule nth_mem)
    with notin have ne: "id' (fst (branches ! j)) \<noteq> id' config" by (metis imageI)
    have "agree (id' (fst (branches ! j))) this1 this"
      using overviewStart_frame [OF s] own_key_neq [OF ne] by simp
    with Cons.prems(3) Suc have "agree (id' (fst (branches ! j))) this1 this0" by simp
    from Cons.IH [OF d j this] Suc b s show ?thesis by (simp add: case_prod_beta)
  qed
qed

lemma finishAll_nth:
  assumes "distinct (map (id' \<circ> fst \<circ> fst) rest)"
    and "i < length rest"
    and "agree (id' (fst (fst (rest ! i)))) this this0"
  shows "fst (finishAll this rest) ! i =
           fst (overviewFinish (snd (fst (rest ! i))) this0 (fst (fst (rest ! i))) (snd (rest ! i)))"
  using assms
proof (induction rest arbitrary: this i)
  case Nil
  then show ?case by simp
next
  case (Cons entry rest)
  obtain config io waiting where b: "entry = ((config, io), waiting)" by (cases entry) auto
  obtain result this1 calls1 where s: "overviewFinish io this config waiting = (result, this1, calls1)"
    by (cases "overviewFinish io this config waiting") auto
  from Cons.prems(1) b have notin: "id' config \<notin> id' ` fst ` fst ` set rest"
    and d: "distinct (map (id' \<circ> fst \<circ> fst) rest)"
    by (auto simp: image_image comp_def)
  show ?case
  proof (cases i)
    case 0
    with Cons.prems(3) b have a: "agree (id' config) this this0" by simp
    from overviewFinish_cong [OF a, of io waiting] s
    have "result = fst (overviewFinish io this0 config waiting)" by simp
    with 0 b s show ?thesis by (simp add: case_prod_beta)
  next
    case (Suc j)
    with Cons.prems(2) have j: "j < length rest" by simp
    hence "rest ! j \<in> set rest" by (rule nth_mem)
    with notin have ne: "id' (fst (fst (rest ! j))) \<noteq> id' config" by (metis imageI)
    have "agree (id' (fst (fst (rest ! j)))) this1 this"
      using overviewFinish_frame [OF s] own_key_neq [OF ne] by simp
    with Cons.prems(3) Suc have "agree (id' (fst (fst (rest ! j)))) this1 this0" by simp
    from Cons.IH [OF d j this] Suc b s show ?thesis by (simp add: case_prod_beta)
  qed
qed

lemma routers_length: "length (fst (routers this branches)) = length branches"
  by (simp add: routers_def case_prod_beta finishAll_length startAll_length)

text \<open>
  With distinct ids, the entry of a device is the one its call computes alone from the
  state the request started in, and its call is started as it would be alone.
\<close>

lemma routers_nth:
  assumes "distinct (map (id' \<circ> fst) branches)"
    and "i < length branches"
  shows "fst (routers this branches) ! i =
           fst (overview (snd (branches ! i)) this (fst (branches ! i)))"
    and "fst (startAll this branches) ! i =
           fst (overviewStart (snd (branches ! i)) this (fst (branches ! i)))"
proof -
  let ?config = "fst (branches ! i)" and ?io = "snd (branches ! i)"
  let ?waitings = "fst (startAll this branches)"
  let ?this1 = "fst (snd (startAll this branches))"
  let ?rest = "zip branches ?waitings"
  have len: "length ?waitings = length branches" by (rule startAll_length)
  from startAll_nth [OF assms, of this]
  have w: "?waitings ! i = fst (overviewStart ?io this ?config)"
    and a: "agree (id' ?config) ?this1 (fst (snd (overviewStart ?io this ?config)))"
    by simp_all
  show "?waitings ! i = fst (overviewStart ?io this ?config)" by (rule w)
  have "map (id' \<circ> fst \<circ> fst) ?rest = map (id' \<circ> fst) (map fst ?rest)"
    by (simp add: comp_def)
  also have "map fst ?rest = branches" using len by simp
  finally have "map (id' \<circ> fst \<circ> fst) ?rest = map (id' \<circ> fst) branches" .
  with assms(1) have d: "distinct (map (id' \<circ> fst \<circ> fst) ?rest)" by simp
  from assms(2) len have i: "i < length ?rest" by simp
  with len assms(2) have nth: "?rest ! i = (branches ! i, ?waitings ! i)" by simp
  from a nth have "agree (id' (fst (fst (?rest ! i)))) ?this1 (fst (snd (overviewStart ?io this ?config)))"
    by simp
  from finishAll_nth [OF d i this] nth w
  have "fst (finishAll ?this1 ?rest) ! i =
          fst (overviewFinish ?io (fst (snd (overviewStart ?io this ?config))) ?config
                 (fst (overviewStart ?io this ?config)))"
    by simp
  moreover have "fst (routers this branches) = fst (finishAll ?this1 ?rest)"
    by (simp add: routers_def case_prod_beta)
  moreover have "fst (overview ?io this ?config) =
          fst (overviewFinish ?io (fst (snd (overviewStart ?io this ?config))) ?config
                 (fst (overviewStart ?io this ?config)))"
    by (subst overview_split) (simp add: case_prod_beta)
  ultimately show "fst (routers this branches) ! i = fst (overview ?io this ?config)" by simp
qed

text \<open>The answer is sent when the last call has settled, not before.\<close>

lemma fold_max_ge: "(a :: int) \<le> fold max xs a"
  by (induction xs arbitrary: a) (auto intro: order_trans [OF max.cobounded2])

lemma fold_max_mem: "x \<in> set xs \<Longrightarrow> (x :: int) \<le> fold max xs a"
proof (induction xs arbitrary: a)
  case Nil
  then show ?case by simp
next
  case (Cons y ys)
  show ?case
  proof (cases "x = y")
    case True
    have "x \<le> max y a" using True by simp
    also have "\<dots> \<le> fold max ys (max y a)" by (rule fold_max_ge)
    finally show ?thesis by simp
  next
    case False
    with Cons.prems have "x \<in> set ys" by simp
    from Cons.IH [OF this] show ?thesis by simp
  qed
qed

lemma routersAnswered_ge:
  assumes "distinct (map (id' \<circ> fst) branches)"
    and "i < length branches"
  shows "overviewSettled (snd (branches ! i)) this (fst (branches ! i)) \<le>
           routersAnswered now this branches"
proof -
  let ?waitings = "fst (startAll this branches)"
  have len: "length ?waitings = length branches" by (rule startAll_length)
  have "settled (snd (branches ! i)) (?waitings ! i) \<in>
          set (map2 (\<lambda>branch waiting. settled (snd branch) waiting) branches ?waitings)"
    using assms(2) len by (auto simp: set_zip intro!: image_eqI [where x = "(branches ! i, ?waitings ! i)"])
  from fold_max_mem [OF this, of now] routers_nth(2) [OF assms, of this]
  show ?thesis by (simp add: routersAnswered_def overviewSettled_def)
qed

section \<open>The fleet overview of \<^verbatim>\<open>backend/server.js\<close>\<close>

text \<open>
  The handler of a device reads and writes only the samples whose key starts with the
  id of that device.
\<close>

lemma calculateRates_server_agree:
  assumes "\<And>x. th (toString routerId @ ''_'' @ x) = th' (toString routerId @ ''_'' @ x)"
  shows "fst (calculateRates_server th now routerId n rx tx) =
         fst (calculateRates_server th' now routerId n rx tx)"
    and "snd (calculateRates_server th now routerId n rx tx) (toString routerId @ ''_'' @ x) =
         snd (calculateRates_server th' now routerId n rx tx) (toString routerId @ ''_'' @ x)"
  using assms [of n] assms [of x]
  by (auto simp: calculateRates_server_def Let_def split: option.splits)

lemma calculateRates_server_frame:
  assumes "\<And>x. k \<noteq> toString routerId @ ''_'' @ x"
  shows "snd (calculateRates_server th now routerId n rx tx) k = th k"
  using assms [of n]
  by (auto simp: calculateRates_server_def Let_def split: option.splits)

lemma rateStep_agree:
  assumes "\<And>x. th (toString routerId @ ''_'' @ x) = th' (toString routerId @ ''_'' @ x)"
  shows "snd (rateStep renderBits now routerId iface (th, rest)) =
         snd (rateStep renderBits now routerId iface (th', rest))"
    and "snd (fst (rateStep renderBits now routerId iface (th, rest))) =
         snd (fst (rateStep renderBits now routerId iface (th', rest)))"
    and "fst (fst (rateStep renderBits now routerId iface (th, rest))) (toString routerId @ ''_'' @ x) =
         fst (fst (rateStep renderBits now routerId iface (th', rest))) (toString routerId @ ''_'' @ x)"
proof -
  obtain l a b c where rest: "rest = (l, a, b, c)" by (metis prod_cases4)
  note calc = calculateRates_server_agree [of th routerId th', OF assms]
  show "snd (rateStep renderBits now routerId iface (th, rest)) =
         snd (rateStep renderBits now routerId iface (th', rest))"
    unfolding rest rateStep_def
    by (simp add: calc(1) Let_def split: option.splits)
  show "snd (fst (rateStep renderBits now routerId iface (th, rest))) =
         snd (fst (rateStep renderBits now routerId iface (th', rest)))"
    unfolding rest rateStep_def
    by (simp add: calc(1) Let_def split: option.splits)
  show "fst (fst (rateStep renderBits now routerId iface (th, rest))) (toString routerId @ ''_'' @ x) =
         fst (fst (rateStep renderBits now routerId iface (th', rest))) (toString routerId @ ''_'' @ x)"
    unfolding rest rateStep_def
    using assms [of x] calc(2) [of _ _ _ _ x]
    by (simp add: calc(1) Let_def split: option.splits)
qed

lemma rateStep_frame:
  assumes "\<And>x. k \<noteq> toString routerId @ ''_'' @ x"
  shows "fst (fst (rateStep renderBits now routerId iface (th, rest))) k = th k"
proof -
  obtain l a b c where rest: "rest = (l, a, b, c)" by (metis prod_cases4)
  show ?thesis
    unfolding rest rateStep_def
    by (simp add: calculateRates_server_frame [OF assms] Let_def split: option.splits)
qed


lemma ratesLoop_agree:
  assumes "\<And>x. th (toString routerId @ ''_'' @ x) = th' (toString routerId @ ''_'' @ x)"
  shows "snd (ratesLoop renderBits now routerId interfaces (th, rest)) =
         snd (ratesLoop renderBits now routerId interfaces (th', rest))
       \<and> (\<forall>x. fst (ratesLoop renderBits now routerId interfaces (th, rest)) (toString routerId @ ''_'' @ x) =
               fst (ratesLoop renderBits now routerId interfaces (th', rest)) (toString routerId @ ''_'' @ x))"
  using assms
proof (induction interfaces arbitrary: th th' rest)
  case Nil
  then show ?case by simp
next
  case (Cons iface interfaces)
  let ?s = "rateStep renderBits now routerId iface (th, rest)"
  let ?s' = "rateStep renderBits now routerId iface (th', rest)"
  note step = rateStep_agree [of th routerId th' renderBits now iface rest, OF Cons.prems]
  have next_agree: "fst (fst ?s) (toString routerId @ ''_'' @ x) = fst (fst ?s') (toString routerId @ ''_'' @ x)" for x
    by (rule step(3))
  have split: "fst ?s = (fst (fst ?s), snd (fst ?s))" "fst ?s' = (fst (fst ?s'), snd (fst ?s))"
    using step(2) by (simp_all add: prod_eq_iff)
  show ?case
  proof (cases "snd ?s")
    case True
    with step(1) have "snd ?s'" by simp
    from Cons.IH [of "fst (fst ?s)" "fst (fst ?s')" "snd (fst ?s)", OF next_agree]
    show ?thesis
      using True \<open>snd ?s'\<close> split by (simp add: Let_def)
  next
    case False
    with step(1) have "\<not> snd ?s'" by simp
    with False show ?thesis
      using step(2) next_agree by (simp add: Let_def)
  qed
qed

lemma ratesLoop_frame:
  assumes "\<And>x. k \<noteq> toString routerId @ ''_'' @ x"
  shows "fst (ratesLoop renderBits now routerId interfaces (th, rest)) k = th k"
proof (induction interfaces arbitrary: th rest)
  case Nil
  then show ?case by simp
next
  case (Cons iface interfaces)
  let ?s = "rateStep renderBits now routerId iface (th, rest)"
  have one: "fst (fst ?s) k = th k" by (rule rateStep_frame [OF assms])
  have "fst (ratesLoop renderBits now routerId interfaces (fst (fst ?s), snd (fst ?s))) k = fst (fst ?s) k"
    by (rule Cons.IH)
  with one show ?case by (simp add: Let_def)
qed

lemma getBandwidthRates_server_agree:
  assumes "\<And>x. th (toString routerId @ ''_'' @ x) = th' (toString routerId @ ''_'' @ x)"
  shows "fst (getBandwidthRates_server renderBits io th routerId) =
         fst (getBandwidthRates_server renderBits io th' routerId)"
proof (cases "traffic_rows io")
  case None
  then show ?thesis by (simp add: getBandwidthRates_server_def)
next
  case (Some interfaces)
  obtain th1 l a b c where run:
    "ratesLoop renderBits (rates_time io) routerId interfaces (th, [], 0, 0, 0) = (th1, l, a, b, c)"
    by (metis prod_cases5)
  obtain th1' l' a' b' c' where run':
    "ratesLoop renderBits (rates_time io) routerId interfaces (th', [], 0, 0, 0) = (th1', l', a', b', c')"
    by (metis prod_cases5)
  from ratesLoop_agree [of th routerId th' renderBits "rates_time io" interfaces "([], 0, 0, 0)", OF assms]
  have "(l, a, b, c) = (l', a', b', c')"
    using run run' by simp
  with Some run run' show ?thesis
    by (simp add: getBandwidthRates_server_def)
qed

lemma getBandwidthRates_server_frame:
  assumes "\<And>x. k \<noteq> toString routerId @ ''_'' @ x"
  shows "snd (getBandwidthRates_server renderBits io th routerId) k = th k"
proof (cases "traffic_rows io")
  case None
  then show ?thesis by (simp add: getBandwidthRates_server_def)
next
  case (Some interfaces)
  obtain th1 l a b c where run:
    "ratesLoop renderBits (rates_time io) routerId interfaces (th, [], 0, 0, 0) = (th1, l, a, b, c)"
    by (metis prod_cases5)
  from ratesLoop_frame [of k routerId renderBits "rates_time io" interfaces th "([], 0, 0, 0)", OF assms]
  have "th1 k = th k" using run by simp
  with Some run show ?thesis
    by (simp add: getBandwidthRates_server_def)
qed

lemma overview_server_agree:
  assumes "\<And>x. th (toString (id' config) @ ''_'' @ x) = th' (toString (id' config) @ ''_'' @ x)"
  shows "fst (overview_server renderBits renderBytes io th config) =
         fst (overview_server renderBits renderBytes io th' config)"
  using getBandwidthRates_server_agree [of th "id' config" th' renderBits io, OF assms]
  by (simp add: overview_server_def Let_def split: option.splits)

lemma overview_server_frame:
  assumes "\<And>x. k \<noteq> toString (id' config) @ ''_'' @ x"
  shows "snd (overview_server renderBits renderBytes io th config) k = th k"
  using getBandwidthRates_server_frame [of k "id' config" renderBits io th, OF assms]
  by (simp add: overview_server_def Let_def split: option.splits)

lemma routers_server_length:
  "length (fst (routers_server renderBits renderBytes world th routerConfigs)) = length routerConfigs"
  by (induction routerConfigs arbitrary: th) (simp_all add: case_prod_beta)

lemma routers_server_nth:
  assumes "distinct (map id' routerConfigs)"
    and "i < length routerConfigs"
    and "\<And>x. th (toString (id' (routerConfigs ! i)) @ ''_'' @ x) =
              th0 (toString (id' (routerConfigs ! i)) @ ''_'' @ x)"
  shows "fst (routers_server renderBits renderBytes world th routerConfigs) ! i =
         fst (overview_server renderBits renderBytes (world (routerConfigs ! i)) th0 (routerConfigs ! i))"
  using assms
proof (induction routerConfigs arbitrary: th i)
  case Nil
  then show ?case by simp
next
  case (Cons config rest)
  let ?th1 = "snd (overview_server renderBits renderBytes (world config) th config)"
  show ?case
  proof (cases i)
    case 0
    have "fst (overview_server renderBits renderBytes (world config) th config) =
          fst (overview_server renderBits renderBytes (world config) th0 config)"
      using Cons.prems(3) 0 by (intro overview_server_agree) simp
    with 0 show ?thesis by (simp add: case_prod_beta)
  next
    case (Suc j)
    with Cons.prems have j: "j < length rest" and d: "distinct (map id' rest)"
      and notin: "id' config \<notin> id' ` set rest"
      by auto
    from j have "rest ! j \<in> set rest" by (rule nth_mem)
    with notin have ne: "id' (rest ! j) \<noteq> id' config" by (metis imageI)
    have "fst (routers_server renderBits renderBytes world ?th1 rest) ! j =
          fst (overview_server renderBits renderBytes (world (rest ! j)) th0 (rest ! j))"
    proof (rule Cons.IH [OF d j])
      fix x
      have "toString (id' (rest ! j)) @ ''_'' @ x \<noteq> toString (id' config) @ ''_'' @ y" for y
        using own_key_neq [OF ne] .
      from overview_server_frame [OF this]
      show "?th1 (toString (id' (rest ! j)) @ ''_'' @ x) = th0 (toString (id' (rest ! j)) @ ''_'' @ x)"
        using Cons.prems(3) [of x] Suc by simp
    qed
    with Suc show ?thesis by (simp add: case_prod_beta)
  qed
qed

section \<open>One entry per device\<close>

lemmas eval_defs = overview_def getFromCache_def setCache_def getCacheKey_def getConnection_def
  releaseConnection_def getRouterResources_def getActiveUsers_def getQueueStatsLight_def countOf_def
  parseIntItem_def parseIntOr0_def parseInt_def numberOf_def digitVal_def isDigit_def isSpace_def
  orElse_def orDefault_def cacheTimeout_def cacheTimeouts_def Object_prototype_def jsLess_def
  offline_def num_def Math_round_def map_add_def toString_1 toString_2 Let_def

lemmas eval_server_defs = overview_server_def getRouterResources_server_def first_def orNull_def
  getActiveUsers_server_def getQueueStats_def queueStep_def parseBandwidth_server_def
  toUpperCase_def getBandwidthRates_server_def rateStep_def startsWith_def
  calculateRates_server_def formatBitsPerSecond_def formatBytes_def elemAt_def offline_server_def

lemma fl_three_quarters: "fl (3 / 4) = 3 / 4"
  by (simp add: fl_def round53_def roundEven_def expo_def pow2_def bits.simps Let_def)

text \<open>
  The memory usage is rounded from doubles: 29 of 200 bytes used is 14.499999999999998
  per cent, and the entry says 14.
\<close>

lemma memoryUsage_rounds_as_double:
  "map_option (\<lambda>resources. resources ''memoryUsage'')
     (fst (getRouterResources
             (answering\<lparr>resource_print := Some [[''total-memory'' \<mapsto> ''200'', ''free-memory'' \<mapsto> ''171'']]\<rparr>)
             emptyPool 8 router1)) = Some (Some (Num 14))"
proof -
  have "Math_round (fl (fl (29 / 200) * 100)) = 14"
    by (simp add: fl_def round53_def roundEven_def expo_def pow2_def bits.simps Math_round_def Let_def)
  then show ?thesis
    by (simp add: getRouterResources_def getFromCache_def getCacheKey_def setCache_def parseIntOr0_def
        parseInt_def numberOf_def digitVal_def isDigit_def isSpace_def orElse_def num_def Let_def)
qed

text \<open>
  Every call is started before any is continued: for a device that is listed twice and
  has no pooled session, both calls find the pool empty and both connect.
\<close>

lemma routers_connects_twice:
  "snd (snd (routers emptyPool [(router1, answering), (router1, answering\<lparr>fresh := 9\<rparr>)])) =
     [Connect 8 ''10.0.0.1'' ''admin'' ''secret'' 8728,
      Connect 9 ''10.0.0.1'' ''admin'' ''secret'' 8728]"
  by (simp add: routers_def overviewStart_def overviewFinish_def overviewQueries_def eval_defs
      fl_three_quarters)

text \<open>
  C1, as stated, says that the offline entry carries the error message of the failed
  connect, and that the failure of one device does not delay the entry of another.
  The adapter refuses the first device with the message
  \<^verbatim>\<open>connect ECONNREFUSED 10.0.0.1:8728\<close>; \<^verbatim>\<open>getConnection\<close> writes it to the console
  and returns \<^verbatim>\<open>null\<close>, and the entry carries the fixed text
  \<^verbatim>\<open>Connection timeout\<close>. The second device answers, and its call settles at 1110,
  110 milliseconds after the request; asked for alone, its entry is sent at 1110.
  With the first device in the list, whose connect fails at 16000, the entries of
  both are sent at 16000.
\<close>

theorem routers_one_entry_per_device_counterexample:
  "connect_message unreachable = ''connect ECONNREFUSED 10.0.0.1:8728''
   \<and> fst (overview unreachable emptyPool router1) ''error'' = Some (Str ''Connection timeout'')
   \<and> overviewSettled answering emptyPool router2 = 1110
   \<and> routersAnswered 1000 emptyPool [(router2, answering)] = 1110
   \<and> routersAnswered 1000 emptyPool
        [(router1, unreachable\<lparr>at_connected := 16000\<rparr>), (router2, answering)] = 16000"
  by (simp add: routersAnswered_def overviewSettled_def settled_def overviewStart_def eval_defs)

text \<open>
  C1, amended. \<^verbatim>\<open>GET /api/routers\<close> answers with exactly one entry per configured
  device. When the ids of the devices are distinct, the entry of a device is the one
  its own call computes from the state the request started in: what happens to the
  other devices neither removes nor changes it. A device whose connect fails (in the
  pooled server: with no fresh cached overview and no reusable pooled session) gets
  the offline entry: status \<^verbatim>\<open>offline\<close>, the fixed error text
  \<^verbatim>\<open>Connection timeout\<close>, and zero for every metric. The answer is sent when the
  call of every device has settled, so not before the slowest of them. The first four
  conjuncts are about the pooled server, the last three about \<^verbatim>\<open>backend/server.js\<close>.
\<close>

theorem routers_one_entry_per_device:
  "length (fst (routers this branches)) = length branches
   \<and> (distinct (map (id' \<circ> fst) branches) \<longrightarrow>
        (\<forall>i < length branches.
           fst (routers this branches) ! i =
             fst (overview (snd (branches ! i)) this (fst (branches ! i)))))
   \<and> (getFromCache this (at_request io) (id' config) ''overview'' = None
        \<and> (\<forall>poolEntry. pools this (toString (id' config) @ ''_'' @ ip config) = Some poolEntry \<longrightarrow>
               120000 \<le> at_request io - lastUsed poolEntry)
        \<and> \<not> connect_ok io \<longrightarrow>
      fst (overview io this config) =
        [''id'' \<mapsto> num (id' config), ''name'' \<mapsto> Str (name config), ''ip'' \<mapsto> Str (ip config),
         ''status'' \<mapsto> Str ''offline'', ''error'' \<mapsto> Str ''Connection timeout'',
         ''cpu'' \<mapsto> num 0, ''memoryUsage'' \<mapsto> num 0, ''uptime'' \<mapsto> Str ''0s'',
         ''activeUsers'' \<mapsto> num 0, ''totalQueues'' \<mapsto> num 0, ''activeQueues'' \<mapsto> num 0,
         ''currentBandwidth'' \<mapsto> Str ''0 bps''])
   \<and> (distinct (map (id' \<circ> fst) branches) \<longrightarrow>
        (\<forall>i < length branches.
           overviewSettled (snd (branches ! i)) this (fst (branches ! i)) \<le>
             routersAnswered now this branches))
   \<and> length (fst (routers_server renderBits renderBytes world' trafficHistory routerConfigs)) =
       length routerConfigs
   \<and> (distinct (map id' routerConfigs) \<longrightarrow>
        (\<forall>i < length routerConfigs.
           fst (routers_server renderBits renderBytes world' trafficHistory routerConfigs) ! i =
             fst (overview_server renderBits renderBytes (world' (routerConfigs ! i)) trafficHistory
                    (routerConfigs ! i))))
   \<and> (\<not> connects io' \<longrightarrow>
      fst (overview_server renderBits renderBytes io' trafficHistory config) =
        [''id'' \<mapsto> num (id' config), ''name'' \<mapsto> Str (name config), ''ip'' \<mapsto> Str (ip config),
         ''status'' \<mapsto> Str ''offline'', ''error'' \<mapsto> Str ''Connection timeout'',
         ''cpu'' \<mapsto> num 0, ''memoryUsage'' \<mapsto> num 0, ''uptime'' \<mapsto> Str ''0s'',
         ''activeUsers'' \<mapsto> num 0])"
proof -
  have isolated: "fst (routers this branches) ! i =
             fst (overview (snd (branches ! i)) this (fst (branches ! i)))"
    if "distinct (map (id' \<circ> fst) branches)" and "i < length branches" for i
    using that by (rule routers_nth(1))
  have down: "fst (overview io this config) =
        [''id'' \<mapsto> num (id' config), ''name'' \<mapsto> Str (name config), ''ip'' \<mapsto> Str (ip config),
         ''status'' \<mapsto> Str ''offline'', ''error'' \<mapsto> Str ''Connection timeout'',
         ''cpu'' \<mapsto> num 0, ''memoryUsage'' \<mapsto> num 0, ''uptime'' \<mapsto> Str ''0s'',
         ''activeUsers'' \<mapsto> num 0, ''totalQueues'' \<mapsto> num 0, ''activeQueues'' \<mapsto> num 0,
         ''currentBandwidth'' \<mapsto> Str ''0 bps'']"
    if "getFromCache this (at_request io) (id' config) ''overview'' = None"
      and "\<forall>poolEntry. pools this (toString (id' config) @ ''_'' @ ip config) = Some poolEntry \<longrightarrow>
               120000 \<le> at_request io - lastUsed poolEntry"
      and "\<not> connect_ok io"
  proof -
    from that(2,3) have "fst (getConnection io this config) = None"
      by (intro getConnection_None) auto
    with that(1) show ?thesis
      using overview_offline(1) [of this io config] by (simp add: offline_def)
  qed
  have late: "overviewSettled (snd (branches ! i)) this (fst (branches ! i)) \<le>
             routersAnswered now this branches"
    if "distinct (map (id' \<circ> fst) branches)" and "i < length branches" for i
    using that by (rule routersAnswered_ge)
  have isolated': "fst (routers_server renderBits renderBytes world' trafficHistory routerConfigs) ! i =
             fst (overview_server renderBits renderBytes (world' (routerConfigs ! i)) trafficHistory
                    (routerConfigs ! i))"
    if "distinct (map id' routerConfigs)" and "i < length routerConfigs" for i
    using that by (rule routers_server_nth) simp
  have down': "fst (overview_server renderBits renderBytes io' trafficHistory config) =
        [''id'' \<mapsto> num (id' config), ''name'' \<mapsto> Str (name config), ''ip'' \<mapsto> Str (ip config),
         ''status'' \<mapsto> Str ''offline'', ''error'' \<mapsto> Str ''Connection timeout'',
         ''cpu'' \<mapsto> num 0, ''memoryUsage'' \<mapsto> num 0, ''uptime'' \<mapsto> Str ''0s'',
         ''activeUsers'' \<mapsto> num 0]"
    if "\<not> connects io'"
    using that by (simp add: overview_server_def offline_server_def)
  from routers_length [of this branches] isolated down late
       routers_server_length [of renderBits renderBytes world' trafficHistory routerConfigs]
       isolated' down'
  show ?thesis by blast
qed

text \<open>Two devices: the first refuses the connection, at 16000; the second answers.\<close>

theorem routers_one_entry_per_device_witness:
  "distinct (map (id' \<circ> fst) [(router1, unreachable\<lparr>at_connected := 16000\<rparr>), (router2, answering)])
   \<and> getFromCache emptyPool (at_request (unreachable\<lparr>at_connected := 16000\<rparr>)) (id' router1)
        ''overview'' = (None :: obj option)
   \<and> \<not> connect_ok (unreachable\<lparr>at_connected := 16000\<rparr>)
   \<and> length (fst (routers emptyPool
                      [(router1, unreachable\<lparr>at_connected := 16000\<rparr>), (router2, answering)])) = 2
   \<and> (fst (routers emptyPool
              [(router1, unreachable\<lparr>at_connected := 16000\<rparr>), (router2, answering)]) ! 0) ''status'' =
       Some (Str ''offline'')
   \<and> (fst (routers emptyPool
              [(router1, unreachable\<lparr>at_connected := 16000\<rparr>), (router2, answering)]) ! 0) ''error'' =
       Some (Str ''Connection timeout'')
   \<and> (fst (routers emptyPool
              [(router1, unreachable\<lparr>at_connected := 16000\<rparr>), (router2, answering)]) ! 0) ''cpu'' =
       Some (Num 0)
   \<and> (fst (routers emptyPool
              [(router1, unreachable\<lparr>at_connected := 16000\<rparr>), (router2, answering)]) ! 1) ''status'' =
       Some (Str ''online'')
   \<and> (fst (routers emptyPool
              [(router1, unreachable\<lparr>at_connected := 16000\<rparr>), (router2, answering)]) ! 1) ''cpu'' =
       Some (Num 7)
   \<and> (fst (routers emptyPool
              [(router1, unreachable\<lparr>at_connected := 16000\<rparr>), (router2, answering)]) ! 1) ''memoryUsage'' =
       Some (Num 75)
   \<and> (fst (routers emptyPool
              [(router1, unreachable\<lparr>at_connected := 16000\<rparr>), (router2, answering)]) ! 1) ''totalQueues'' =
       Some (Num 5)
   \<and> 16000 \<le> routersAnswered 1000 emptyPool
        [(router1, unreachable\<lparr>at_connected := 16000\<rparr>), (router2, answering)]
   \<and> \<not> connects quiet
   \<and> length (fst (routers_server hash hash
                      (\<lambda>config. if id' config = 1 then quiet else talkative)
                      Map.empty [router1, router2])) = 2
   \<and> (fst (routers_server hash hash
              (\<lambda>config. if id' config = 1 then quiet else talkative)
              Map.empty [router1, router2]) ! 0) ''status'' = Some (Str ''offline'')
   \<and> (fst (routers_server hash hash
              (\<lambda>config. if id' config = 1 then quiet else talkative)
              Map.empty [router1, router2]) ! 1) ''status'' = Some (Str ''online'')
   \<and> (fst (routers_server hash hash
              (\<lambda>config. if id' config = 1 then quiet else talkative)
              Map.empty [router1, router2]) ! 1) ''activeUsers'' = Some (Num 1)
   \<and> (fst (routers_server hash hash
              (\<lambda>config. if id' config = 1 then quiet else talkative)
              Map.empty [router1, router2]) ! 1) ''totalQueues'' = Some (Num 1)"
proof -
  note fleet = routers_one_entry_per_device
    [of emptyPool "[(router1, unreachable\<lparr>at_connected := 16000\<rparr>), (router2, answering)]"
        "unreachable\<lparr>at_connected := 16000\<rparr>" router1 1000 hash hash
        "\<lambda>config. if id' config = 1 then quiet else talkative" Map.empty "[router1, router2]" quiet]
  have pooled: "fst (overview answering emptyPool router2) ''status'' = Some (Str ''online'')"
    "fst (overview answering emptyPool router2) ''cpu'' = Some (Num 7)"
    "fst (overview answering emptyPool router2) ''memoryUsage'' = Some (Num 75)"
    "fst (overview answering emptyPool router2) ''totalQueues'' = Some (Num 5)"
    by (simp_all add: eval_defs fl_three_quarters)
  have settles: "overviewSettled (unreachable\<lparr>at_connected := 16000\<rparr>) emptyPool router1 = 16000"
    by (simp add: overviewSettled_def settled_def overviewStart_def eval_defs)
  have older: "fst (overview_server hash hash talkative Map.empty router2) ''status'' =
      Some (Str ''online'')"
    "fst (overview_server hash hash talkative Map.empty router2) ''activeUsers'' = Some (Num 1)"
    "fst (overview_server hash hash talkative Map.empty router2) ''totalQueues'' = Some (Num 1)"
    by (simp_all add: eval_server_defs eval_defs fl_three_quarters)
  from fleet pooled settles older show ?thesis
    by (simp add: getFromCache_def num_def All_less_Suc)
qed

text \<open>
  C2. The claim says that a result with status \<^verbatim>\<open>error\<close> is never stored under the
  \<^verbatim>\<open>overview\<close> category. When the device accepts the connection and the resource
  query fails, the handler builds the entry with status \<^verbatim>\<open>error\<close> and stores it:
  the cache holds it under \<^verbatim>\<open>1_overview\<close>, and a request that comes 2.9 seconds
  later is answered with it, with no call to the device, although the device would
  answer by then.
\<close>

theorem overview_caches_error:
  "fst (overview failing emptyPool router1) ''status'' = Some (Str ''error'')
   \<and> map_option data (cacheData (fst (snd (overview failing emptyPool router1))) ''1_overview'') =
       Some (fst (overview failing emptyPool router1))
   \<and> fst (overview (answering\<lparr>at_request := 4000\<rparr>)
            (fst (snd (overview failing emptyPool router1))) router1) ''status'' = Some (Str ''error'')
   \<and> snd (snd (overview (answering\<lparr>at_request := 4000\<rparr>)
                 (fst (snd (overview failing emptyPool router1))) router1)) = []"
  by (simp add: eval_defs)

section \<open>The full queue statistics\<close>

lemma parseBandwidth_1M: "parseBandwidth (Some ''1M'') = 1000000"
  by (simp add: parseBandwidth_def isDigit_def numberOf_def digitVal_def toUpperCase_def Let_def)

lemma parseBandwidth_2M: "parseBandwidth (Some ''2M'') = 2000000"
  by (simp add: parseBandwidth_def isDigit_def numberOf_def digitVal_def toUpperCase_def Let_def)

lemma parseBandwidth_server_1M: "parseBandwidth_server (Some ''1M'') = 1000000"
  by (simp add: parseBandwidth_server_def isDigit_def numberOf_def digitVal_def toUpperCase_def Let_def)

lemma parseBandwidth_server_2M: "parseBandwidth_server (Some ''2M'') = 2000000"
  by (simp add: parseBandwidth_server_def isDigit_def numberOf_def digitVal_def toUpperCase_def Let_def)

text \<open>
  What the loop of \<^verbatim>\<open>getQueueStatsFull\<close> adds up over the queues it is given: the
  number of enabled queues and the sums of the two limits.
\<close>

lemma fold_queueStep_counts:
  "fold (queueStep parse renderBits renderBytes) queues (activeQueues, up, down, queueList) =
     (activeQueues', up', down', queueList') \<Longrightarrow>
   activeQueues' = activeQueues + int (length (filter (\<lambda>queue. queue ''disabled'' \<noteq> Some ''true'') queues))
   \<and> up' = up + sum_list (map (\<lambda>queue. parse
        (elemAt (split CHR ''/'' (orElse (queue ''max-limit'') ''0/0'')) 0)) queues)
   \<and> down' = down + sum_list (map (\<lambda>queue. parse
        (elemAt (split CHR ''/'' (orElse (queue ''max-limit'') ''0/0'')) 1)) queues)
   \<and> length queueList' = length queueList + length queues"
proof (induction queues arbitrary: activeQueues up down queueList)
  case Nil
  then show ?case by simp
next
  case (Cons queue queues)
  obtain a1 u1 d1 l1 where step:
    "queueStep parse renderBits renderBytes queue (activeQueues, up, down, queueList) = (a1, u1, d1, l1)"
    by (metis prod_cases4)
  then have first:
    "a1 = activeQueues + (if queue ''disabled'' \<noteq> Some ''true'' then 1 else 0)"
    "u1 = up + parse (elemAt (split CHR ''/'' (orElse (queue ''max-limit'') ''0/0'')) 0)"
    "d1 = down + parse (elemAt (split CHR ''/'' (orElse (queue ''max-limit'') ''0/0'')) 1)"
    "length l1 = length queueList + 1"
    by (auto simp: queueStep_def Let_def)
  from Cons.prems step
  have "fold (queueStep parse renderBits renderBytes) queues (a1, u1, d1, l1) =
          (activeQueues', up', down', queueList')"
    by simp
  from Cons.IH [OF this] first show ?case by simp
qed

text \<open>
  C9. The claim says that the active and disabled counts and the two limit sums
  cover the whole queue set. \<^verbatim>\<open>getQueueStatsFull\<close> takes the first 20 queues
  before its loop, so only \<^verbatim>\<open>total\<close> covers the whole set. For a device with 21
  enabled queues of 1M up and 2M down, it reports 21 queues, 20 active, 1 disabled,
  and limits of 20M and 40M. On the same reply \<^verbatim>\<open>getQueueStats\<close> of
  \<^verbatim>\<open>backend/server.js\<close>, whose loop runs before the list is cut, reports 21 active,
  none disabled, and limits of 21M and 42M.
\<close>

theorem getQueueStatsFull_totals_after_truncation:
  "fst (getQueueStatsFull renderBits renderBytes (answering\<lparr>queue_print := Some manyQueues\<rparr>)
          emptyPool 8 router1) ''total'' = Some (Num 21)
   \<and> fst (getQueueStatsFull renderBits renderBytes (answering\<lparr>queue_print := Some manyQueues\<rparr>)
          emptyPool 8 router1) ''active'' = Some (Num 20)
   \<and> fst (getQueueStatsFull renderBits renderBytes (answering\<lparr>queue_print := Some manyQueues\<rparr>)
          emptyPool 8 router1) ''disabled'' = Some (Num 1)
   \<and> fst (getQueueStatsFull renderBits renderBytes (answering\<lparr>queue_print := Some manyQueues\<rparr>)
          emptyPool 8 router1) ''totalBandwidthUp'' = Some (Str (renderBits 20000000))
   \<and> fst (getQueueStatsFull renderBits renderBytes (answering\<lparr>queue_print := Some manyQueues\<rparr>)
          emptyPool 8 router1) ''totalBandwidthDown'' = Some (Str (renderBits 40000000))
   \<and> getQueueStats renderBits renderBytes (quiet\<lparr>queue_rows := Some manyQueues\<rparr>) ''total'' = Some (Num 21)
   \<and> getQueueStats renderBits renderBytes (quiet\<lparr>queue_rows := Some manyQueues\<rparr>) ''active'' = Some (Num 21)
   \<and> getQueueStats renderBits renderBytes (quiet\<lparr>queue_rows := Some manyQueues\<rparr>) ''disabled'' = Some (Num 0)
   \<and> getQueueStats renderBits renderBytes (quiet\<lparr>queue_rows := Some manyQueues\<rparr>) ''totalBandwidthUp'' =
       Some (Str (renderBits 21000000))
   \<and> getQueueStats renderBits renderBytes (quiet\<lparr>queue_rows := Some manyQueues\<rparr>) ''totalBandwidthDown'' =
       Some (Str (renderBits 42000000))"
proof -
  obtain a u d l where f:
    "fold (queueStep parseBandwidth renderBits renderBytes) (take 20 manyQueues) (0, 0, 0, []) = (a, u, d, l)"
    by (metis prod_cases4)
  from fold_queueStep_counts [OF f]
  have "a = 20" "u = 20000000" "d = 40000000"
    by (simp_all add: orElse_def elemAt_def parseBandwidth_1M parseBandwidth_2M sum_list_replicate)
  with f have pooled:
    "fst (getQueueStatsFull renderBits renderBytes (answering\<lparr>queue_print := Some manyQueues\<rparr>)
          emptyPool 8 router1) =
       [''total'' \<mapsto> Num 21, ''active'' \<mapsto> Num 20, ''disabled'' \<mapsto> Num 1,
        ''totalBandwidthUp'' \<mapsto> Str (renderBits 20000000),
        ''totalBandwidthDown'' \<mapsto> Str (renderBits 40000000),
        ''queues'' \<mapsto> Arr l]"
    by (simp add: getQueueStatsFull_def getFromCache_def num_def formatBitsPerSecond_def Let_def)
  obtain a' u' d' l' where g:
    "fold (queueStep parseBandwidth_server renderBits renderBytes) manyQueues (0, 0, 0, []) = (a', u', d', l')"
    by (metis prod_cases4)
  from fold_queueStep_counts [OF g]
  have "a' = 21" "u' = 21000000" "d' = 42000000"
    by (simp_all add: orElse_def elemAt_def parseBandwidth_server_1M parseBandwidth_server_2M
        sum_list_replicate)
  with g have older:
    "getQueueStats renderBits renderBytes (quiet\<lparr>queue_rows := Some manyQueues\<rparr>) =
       [''total'' \<mapsto> Num 21, ''active'' \<mapsto> Num 21, ''disabled'' \<mapsto> Num 0,
        ''totalBandwidthUp'' \<mapsto> Str (renderBits 21000000),
        ''totalBandwidthDown'' \<mapsto> Str (renderBits 42000000),
        ''queues'' \<mapsto> Arr (take 10 l')]"
    by (simp add: getQueueStats_def num_def formatBitsPerSecond_def Let_def)
  show ?thesis
    unfolding pooled older by simp
qed

end
